theory Spec2Isabelle
  imports Main "HOL-Library.Multiset"
begin

section \<open>Python values\<close>

text \<open>
  JSON values as Python holds them: \<open>JNull\<close> is \<open>None\<close>, a dict is an association list
  in insertion order (keys distinct), a list is a list.  The properties \<open>as2\<close>,
  \<open>bsky\<close>, \<open>mf2\<close>, \<open>our_as1\<close> and \<open>raw\<close> of an \<open>Object\<close> hold such values.
\<close>

datatype json =
    JNull
  | JBool bool
  | JInt int
  | JStr string
  | JList "json list"
  | JDict "(string \<times> json) list"

text \<open>Exceptions the modelled code raises; \<open>HTTPError n\<close> is webutil's \<open>error(msg, status=n)\<close>.\<close>

datatype py_error =
    AssertionError
  | TypeError
  | AttributeError
  | KeyError
  | ValueError
  | BadValueError
  | HTTPError nat

text \<open>Python truthiness (\<open>if v:\<close>, \<open>not v\<close>).\<close>

fun truthy :: "json \<Rightarrow> bool" where
  "truthy JNull = False"
| "truthy (JBool b) = b"
| "truthy (JInt i) = (i \<noteq> 0)"
| "truthy (JStr s) = (s \<noteq> [])"
| "truthy (JList xs) = (xs \<noteq> [])"
| "truthy (JDict kvs) = (kvs \<noteq> [])"

text \<open>\<open>d.get(k)\<close>, \<open>d.get(k, default)\<close>, \<open>d[k] = v\<close> (an existing key keeps its place, a new
  key goes last) and \<open>d.pop(k, None)\<close>.\<close>

definition dict_get :: "(string \<times> json) list \<Rightarrow> string \<Rightarrow> json" where
  "dict_get d k = (case map_of d k of None \<Rightarrow> JNull | Some v \<Rightarrow> v)"

definition dict_get_default :: "(string \<times> json) list \<Rightarrow> string \<Rightarrow> json \<Rightarrow> json" where
  "dict_get_default d k dflt = (case map_of d k of None \<Rightarrow> dflt | Some v \<Rightarrow> v)"

fun dict_set :: "(string \<times> json) list \<Rightarrow> string \<Rightarrow> json \<Rightarrow> (string \<times> json) list" where
  "dict_set [] k v = [(k, v)]"
| "dict_set ((k', v') # d) k v =
     (if k' = k then (k, v) # d else (k', v') # dict_set d k v)"

definition dict_pop :: "(string \<times> json) list \<Rightarrow> string \<Rightarrow> (string \<times> json) list" where
  "dict_pop d k = filter (\<lambda>kv. fst kv \<noteq> k) d"

text \<open>\<open>needle in haystack\<close> on two strings: the needle occurs as a contiguous run.\<close>

fun py_substr :: "string \<Rightarrow> string \<Rightarrow> bool" where
  "py_substr n [] = (n = [])"
| "py_substr n (c # cs) = (take (length n) (c # cs) = n \<or> py_substr n cs)"

text \<open>\<open>s in v\<close> for a string \<open>s\<close> and any value \<open>v\<close>: substring of a string, element of a
  list, key of a dict; \<open>None\<close>, a bool or a number is not iterable and raises.\<close>

fun py_in :: "string \<Rightarrow> json \<Rightarrow> py_error + bool" where
  "py_in s (JStr t) = Inr (py_substr s t)"
| "py_in s (JList xs) = Inr (JStr s \<in> set xs)"
| "py_in s (JDict kvs) = Inr (s \<in> fst ` set kvs)"
| "py_in s JNull = Inl TypeError"
| "py_in s (JBool b) = Inl TypeError"
| "py_in s (JInt i) = Inl TypeError"

section \<open>Protocol registry, Target\<close>

text \<open>
  The class attributes of a \<open>User\<close> subclass (a protocol) that \<open>models.py\<close> reads.
  \<open>kind_name\<close> is the class's datastore kind (\<open>cls._get_kind()\<close>, the class name).
\<close>

record proto_class =
  kind_name :: string
  LABEL :: string
  ABBREV :: "string option"
  HAS_COPIES :: bool
  REQUIRES_AVATAR :: bool
  REQUIRES_NAME :: bool
  REQUIRES_OLD_ACCOUNT :: bool
  DEFAULT_ENABLED_PROTOCOLS :: "string list"

text \<open>\<open>class Target\<close>: a protocol label and a URI; equality is on both fields.\<close>

record Target =
  uri :: string
  protocol :: string

section \<open>The environment of \<open>models.py\<close>\<close>

text \<open>
  \<open>PROTOCOLS\<close> is the module's registry, in the order of the dict: every label maps to
  its class, or to \<open>None\<close> while no class has registered under it.  The classes are
  defined in other modules, so the table is a parameter.

  The other fields are the functions that \<open>models.py\<close> calls in other modules
  (\<open>common\<close>, \<open>ids\<close>, the protocol classes, granary, webutil).  They are parameters of
  the model: every theorem holds for any behaviour of theirs.

  \<^item> \<open>unwrap\<close>: \<open>common.unwrap\<close>;
  \<^item> \<open>as2_to_as1\<close>: \<open>granary.as2.to_as1\<close>;
  \<^item> \<open>bsky_to_as1 id bsky\<close>: the \<open>bsky\<close> branch of \<open>Object.as1\<close> (\<open>parse_at_uri\<close>, the
    repo's handle and PDS, \<open>bluesky.to_as1\<close>), \<open>JNull\<close> when the conversion raises
    \<open>ValueError\<close> or \<open>RequestException\<close>;
  \<^item> \<open>mf2_to_as1\<close>: \<open>microformats2.json_to_object(mf2, rel_urls=mf2.get('rel-urls'))\<close>;
  \<^item> \<open>is_url_or_domain id\<close>: \<open>util.is_web(id) or re.match(DOMAIN_RE, id)\<close>;
  \<^item> \<open>get_url\<close>: \<open>util.get_url\<close>;
  \<^item> \<open>html_to_text\<close>: \<open>granary.source.html_to_text(_, ignore_links=True)\<close>;
  \<^item> \<open>is_public\<close>: \<open>as1.is_public(_, unlisted=False)\<close>;
  \<^item> \<open>too_young published\<close>:
    \<open>util.now() - util.parse_iso8601(published) < OLD_ACCOUNT_AGE\<close>;
  \<^item> \<open>get_ids\<close>: \<open>as1.get_ids\<close>;
  \<^item> \<open>activity_changed\<close>: \<open>as1.activity_changed(_, _, inReplyTo=False)\<close>;
  \<^item> \<open>normalize_user_id\<close>, \<open>profile_id\<close>: the functions of \<open>ids\<close>;
  \<^item> \<open>owns_id\<close>: \<open>Protocol.owns_id\<close> (\<open>True\<close>, \<open>False\<close> or \<open>None\<close>);
  \<^item> \<open>at_uri_repo\<close>: the repo part that \<open>arroba.util.parse_at_uri\<close> returns;
  \<^item> \<open>parse_iso8601\<close>: \<open>util.parse_iso8601\<close> followed by the conversion to naive UTC,
    \<open>None\<close> when the string does not parse (the call raises).
\<close>

record env =
  PROTOCOLS :: "(string \<times> proto_class option) list"
  unwrap :: "json \<Rightarrow> json"
  as2_to_as1 :: "json \<Rightarrow> json"
  bsky_to_as1 :: "string \<Rightarrow> json \<Rightarrow> json"
  mf2_to_as1 :: "json \<Rightarrow> json"
  is_url_or_domain :: "json \<Rightarrow> bool"
  get_url :: "json \<Rightarrow> json"
  html_to_text :: "json \<Rightarrow> string"
  is_public :: "json \<Rightarrow> bool"
  too_young :: "json \<Rightarrow> bool"
  get_ids :: "json \<Rightarrow> string \<Rightarrow> string list"
  activity_changed :: "json \<Rightarrow> json \<Rightarrow> bool"
  normalize_user_id :: "string \<Rightarrow> proto_class \<Rightarrow> string"
  profile_id :: "string \<Rightarrow> proto_class \<Rightarrow> string"
  owns_id :: "proto_class \<Rightarrow> string \<Rightarrow> bool option"
  at_uri_repo :: "string \<Rightarrow> string"
  parse_iso8601 :: "string \<Rightarrow> int option"

text \<open>\<open>PROTOCOLS.get(label)\<close>: the class, or \<open>None\<close> for an unknown label, no label, or a
  label without a class.\<close>

definition protocols_get :: "env \<Rightarrow> string option \<Rightarrow> proto_class option" where
  "protocols_get l lab =
     (case lab of
        None \<Rightarrow> None
      | Some s \<Rightarrow> (case map_of (PROTOCOLS l) s of None \<Rightarrow> None | Some c \<Rightarrow> c))"

section \<open>Object\<close>

text \<open>
  \<open>class Object\<close>.  \<open>object_id\<close> is \<open>self.key.id()\<close>; a JSON property that is unset holds
  \<open>JNull\<close>.  \<open>new\<close> and \<open>changed\<close> are the in-memory attributes (\<open>None\<close> = unknown).
\<close>

record Object =
  object_id :: string
  source_protocol :: "string option"
  labels :: "string list"
  as2 :: json
  bsky :: json
  mf2 :: json
  our_as1 :: json
  raw :: json
  atom :: "string option"
  rss :: "string option"
  deleted :: "bool option"
  object_copies :: "Target list"
  new :: "bool option"
  changed :: "bool option"

text \<open>\<open>use_urls_as_ids\<close>, the helper nested in \<open>Object.as1\<close>: the id is replaced when it is
  missing or not a URL, then the first \<open>author\<close>, \<open>actor\<close> and \<open>object\<close> values are
  visited.  The Python mutates the dict in place; the model returns the new dict.\<close>

definition fix_id :: "env \<Rightarrow> (string \<times> json) list \<Rightarrow> (string \<times> json) list
    \<Rightarrow> (string \<times> json) list" where
  "fix_id l orig d =
     (let i = dict_get orig ''id'' in
      if \<not> truthy i \<or> \<not> is_url_or_domain l i
      then (let u = get_url l (JDict orig) in if truthy u then dict_set d ''id'' u else d)
      else d)"

fun use_urls_as_ids :: "env \<Rightarrow> json \<Rightarrow> json" where
  "use_urls_as_ids l (JDict kvs) =
     JDict (fix_id l kvs (map (\<lambda>(k, v).
        if k \<in> {''author'', ''actor'', ''object''}
        then (k, case v of
                  JDict d \<Rightarrow> use_urls_as_ids l v
                | JList (x # rest) \<Rightarrow> JList (use_urls_as_ids l x # rest)
                | _ \<Rightarrow> v)
        else (k, v)) kvs))"
| "use_urls_as_ids l j = j"

text \<open>\<open>obj.setdefault('id', self.key.id())\<close>.\<close>

definition setdefault_id :: "string \<Rightarrow> json \<Rightarrow> json" where
  "setdefault_id i j =
     (case j of
        JDict d \<Rightarrow> (case map_of d ''id'' of None \<Rightarrow> JDict (d @ [(''id'', JStr i)]) | Some _ \<Rightarrow> j)
      | _ \<Rightarrow> j)"

text \<open>
  The property \<open>Object.as1\<close>: the canonical form, derived from the first populated one of
  \<open>our_as1\<close>, \<open>as2\<close>, \<open>bsky\<close>, \<open>mf2\<close>; \<open>JNull\<close> is \<open>None\<close>.  \<open>raw\<close> is never read.
  \<open>as1_of\<close> is the property as a function of the fields it reads: the key id,
  \<open>our_as1\<close>, whether \<open>atom\<close> or \<open>rss\<close> is set, \<open>as2\<close>, \<open>bsky\<close> and \<open>mf2\<close>.
\<close>

definition as1_of :: "env \<Rightarrow> string \<Rightarrow> json \<Rightarrow> bool \<Rightarrow> json \<Rightarrow> json \<Rightarrow> json \<Rightarrow> json" where
  "as1_of l i our feed a2 bs m2 =
     (if truthy our then
        setdefault_id i (if feed then use_urls_as_ids l our else our)
      else if truthy a2 then
        setdefault_id i (as2_to_as1 l (unwrap l a2))
      else if truthy bs then
        (case bsky_to_as1 l i bs of
           JNull \<Rightarrow> JNull
         | j \<Rightarrow> setdefault_id i j)
      else if truthy m2 then
        setdefault_id i
          (case use_urls_as_ids l (mf2_to_as1 l m2) of
             JDict d \<Rightarrow>
               (case m2 of
                  JDict m \<Rightarrow>
                    (let url = dict_get m ''url'' in
                     if truthy url
                     then JDict (dict_set d ''id'' (if CHR ''#'' \<in> set i then JStr i else url))
                     else JDict d)
                | _ \<Rightarrow> JDict d)
           | j \<Rightarrow> j)
      else JNull)"

definition str_set :: "string option \<Rightarrow> bool" where
  "str_set s = (s \<noteq> None \<and> s \<noteq> Some [])"

definition as1 :: "env \<Rightarrow> Object \<Rightarrow> json" where
  "as1 l ob =
     as1_of l (object_id ob) (our_as1 ob) (str_set (atom ob) \<or> str_set (rss ob))
       (as2 ob) (bsky ob) (mf2 ob)"

text \<open>Reading \<open>as1\<close> when \<open>our_as1\<close> is populated works on the stored dict itself, so
  the back-filled ids stay in \<open>our_as1\<close>.\<close>

definition as1_touch :: "env \<Rightarrow> Object \<Rightarrow> Object" where
  "as1_touch l ob = (if truthy (our_as1 ob) then ob\<lparr>our_as1 := as1 l ob\<rparr> else ob)"

text \<open>\<open>Object.get_copy\<close>.\<close>

fun first_copy :: "proto_class \<Rightarrow> Target list \<Rightarrow> string option" where
  "first_copy p [] = None"
| "first_copy p (c # cs) =
     (if protocol c = LABEL p \<or> Some (protocol c) = ABBREV p then Some (uri c)
      else first_copy p cs)"

definition object_get_copy :: "Object \<Rightarrow> proto_class \<Rightarrow> string option" where
  "object_get_copy ob p =
     (if source_protocol ob = Some (LABEL p) \<or> source_protocol ob = ABBREV p
      then Some (object_id ob)
      else first_copy p (object_copies ob))"

text \<open>The datastore's \<open>Object\<close> kind: \<open>key.get()\<close> by key id.\<close>

type_synonym object_store = "Object list"

definition get_object_by_id :: "object_store \<Rightarrow> string \<Rightarrow> Object option" where
  "get_object_by_id objs k = find (\<lambda>ob. object_id ob = k) objs"

section \<open>Reading and writing Objects\<close>

text \<open>\<open>util.get_list(obj, key)\<close> of webutil: the value as a list (a list as it is, another
  truthy value as a one-element list, otherwise the empty list).\<close>

definition get_list :: "(string \<times> json) list \<Rightarrow> string \<Rightarrow> json list" where
  "get_list d k =
     (case dict_get_default d k (JList []) of
        JList xs \<Rightarrow> xs
      | v \<Rightarrow> if truthy v then [v] else [])"

text \<open>One read of the property \<open>as1\<close>: the value, and the object afterwards.\<close>

definition read_as1 :: "env \<Rightarrow> Object \<Rightarrow> json \<times> Object" where
  "read_as1 l ob = (as1 l ob, as1_touch l ob)"

text \<open>\<open>Object.clear\<close>.\<close>

definition clear :: "Object \<Rightarrow> Object" where
  "clear ob = ob\<lparr>our_as1 := JNull\<rparr>"

text \<open>\<open>Object.activity_changed\<close>; it reads \<open>self.as1\<close> twice.\<close>

definition object_activity_changed :: "env \<Rightarrow> Object \<Rightarrow> json \<Rightarrow> bool \<times> Object" where
  "object_activity_changed l ob other_as1 =
     (let (v1, ob1) = read_as1 l ob;
          (v2, ob2) = read_as1 l ob1
      in (if truthy v1 \<and> truthy other_as1 then activity_changed l v2 other_as1
          else truthy v2 \<noteq> truthy other_as1, ob2))"

text \<open>The last step of \<open>Object._pre_put_hook\<close>: \<open>@context\<close> is removed from \<open>as2\<close> and from
  the dicts in its \<open>actor\<close>, \<open>attributedTo\<close>, \<open>author\<close> and \<open>object\<close> fields.\<close>

definition pop_context :: "json \<Rightarrow> json" where
  "pop_context v = (case v of JDict d \<Rightarrow> JDict (dict_pop d ''@context'') | _ \<Rightarrow> v)"

definition strip_context :: "(string \<times> json) list \<Rightarrow> (string \<times> json) list" where
  "strip_context d =
     map (\<lambda>(k, v).
        if k \<in> set [''actor'', ''attributedTo'', ''author'', ''object'']
        then (k, case v of JList xs \<Rightarrow> JList (map pop_context xs) | _ \<Rightarrow> pop_context v)
        else (k, v))
       (dict_pop d ''@context'')"

text \<open>
  \<open>Object._pre_put_hook\<close>, step by step: the source protocol must own the id
  (\<open>check_owned\<close>), an \<open>at://\<close> id must have a DID repo (\<open>check_at_uri\<close>), the
  \<open>activity\<close> label follows the canonical form (\<open>set_activity_label\<close>), \<open>as2\<close> loses its
  contexts (\<open>strip_as2_context\<close>).
\<close>

definition check_owned :: "env \<Rightarrow> Object \<Rightarrow> py_error + unit" where
  "check_owned l ob =
     (case source_protocol ob of
        None \<Rightarrow> Inr ()
      | Some sp \<Rightarrow>
          if sp = ''ui'' then Inr ()
          else (case map_of (PROTOCOLS l) sp of
                  None \<Rightarrow> Inl KeyError
                | Some None \<Rightarrow> Inl AttributeError
                | Some (Some proto) \<Rightarrow>
                    if owns_id l proto (object_id ob) = Some False
                    then Inl AssertionError else Inr ()))"

definition check_at_uri :: "env \<Rightarrow> Object \<Rightarrow> py_error + unit" where
  "check_at_uri l ob =
     (if take 5 (object_id ob) = ''at://''
         \<and> take 4 (at_uri_repo l (object_id ob)) \<noteq> ''did:''
      then Inl ValueError else Inr ())"

definition is_activity :: "env \<Rightarrow> Object \<Rightarrow> py_error + (bool \<times> Object)" where
  "is_activity l ob =
     (let (v1, ob1) = read_as1 l ob in
      if truthy v1
      then (let (v2, ob2) = read_as1 l ob1 in
            case v2 of
              JDict d \<Rightarrow> Inr (dict_get d ''objectType'' = JStr ''activity'', ob2)
            | _ \<Rightarrow> Inl AttributeError)
      else Inr (False, ob1))"

definition set_activity_label :: "bool \<Rightarrow> Object \<Rightarrow> Object" where
  "set_activity_label act ob =
     (if act
      then (if ''activity'' \<in> set (labels ob) then ob
            else ob\<lparr>labels := labels ob @ [''activity'']\<rparr>)
      else (if ''activity'' \<in> set (labels ob)
            then ob\<lparr>labels := remove1 ''activity'' (labels ob)\<rparr>
            else ob))"

definition strip_as2_context :: "Object \<Rightarrow> py_error + Object" where
  "strip_as2_context ob =
     (if truthy (as2 ob)
      then (case as2 ob of
              JDict d \<Rightarrow> Inr (ob\<lparr>as2 := JDict (strip_context d)\<rparr>)
            | _ \<Rightarrow> Inl TypeError)
      else Inr ob)"

definition pre_put_hook :: "env \<Rightarrow> Object \<Rightarrow> py_error + Object" where
  "pre_put_hook l ob =
     (case check_owned l ob of
        Inl e \<Rightarrow> Inl e
      | Inr _ \<Rightarrow>
         (case check_at_uri l ob of
            Inl e \<Rightarrow> Inl e
          | Inr _ \<Rightarrow>
             (case is_activity l ob of
                Inl e \<Rightarrow> Inl e
              | Inr (act, ob1) \<Rightarrow> strip_as2_context (set_activity_label act ob1))))"

text \<open>\<open>put()\<close>: the hook, then the write.  The attributes \<open>new\<close> and \<open>changed\<close> are not
  stored.\<close>

definition store_object :: "object_store \<Rightarrow> Object \<Rightarrow> object_store" where
  "store_object st ob =
     (let stored = ob\<lparr>new := None, changed := None\<rparr> in
      if get_object_by_id st (object_id ob) = None then st @ [stored]
      else map (\<lambda>x. if object_id x = object_id ob then stored else x) st)"

definition object_put :: "env \<Rightarrow> object_store \<Rightarrow> Object \<Rightarrow> (py_error + Object) \<times> object_store" where
  "object_put l st ob =
     (case pre_put_hook l ob of
        Inl e \<Rightarrow> (Inl e, st)
      | Inr ob' \<Rightarrow> (Inr ob', store_object st ob'))"

text \<open>
  The keyword arguments \<open>**props\<close> of \<open>Object.get_or_create\<close>.  For the five content
  properties \<open>None\<close> means that the keyword is not passed, and \<open>Some v\<close> that it is passed
  with the value \<open>v\<close> (\<open>JNull\<close> for \<open>None\<close>); for the others \<open>None\<close> stands for a keyword
  that is not passed or is passed with \<open>None\<close>.
\<close>

record props =
  p_as2 :: "json option"
  p_bsky :: "json option"
  p_mf2 :: "json option"
  p_raw :: "json option"
  p_our_as1 :: "json option"
  p_source_protocol :: "string option"
  p_atom :: "string option"
  p_rss :: "string option"
  p_deleted :: "bool option"
  p_copies :: "Target list option"
  p_labels :: "string list option"

text \<open>\<open>set(props.keys()) & set(('as2', 'bsky', 'mf2', 'raw'))\<close>.\<close>

definition whole_content_supplied :: "props \<Rightarrow> bool" where
  "whole_content_supplied p =
     (p_as2 p \<noteq> None \<or> p_bsky p \<noteq> None \<or> p_mf2 p \<noteq> None \<or> p_raw p \<noteq> None)"

text \<open>\<open>obj.populate(**{k: v for k, v in props.items() if v and ...})\<close>: every truthy value
  is assigned; a \<open>source_protocol\<close> outside the property's choices (the registry's labels)
  raises.\<close>

definition populate_json :: "json option \<Rightarrow> json \<Rightarrow> json" where
  "populate_json supplied old =
     (case supplied of None \<Rightarrow> old | Some v \<Rightarrow> if truthy v then v else old)"

definition populate :: "env \<Rightarrow> props \<Rightarrow> Object \<Rightarrow> py_error + Object" where
  "populate l p ob =
     (if (case p_source_protocol p of
            None \<Rightarrow> False
          | Some sp \<Rightarrow> sp \<noteq> [] \<and> sp \<notin> fst ` set (PROTOCOLS l))
      then Inl BadValueError
      else Inr (ob\<lparr>
        as2 := populate_json (p_as2 p) (as2 ob),
        bsky := populate_json (p_bsky p) (bsky ob),
        mf2 := populate_json (p_mf2 p) (mf2 ob),
        raw := populate_json (p_raw p) (raw ob),
        our_as1 := populate_json (p_our_as1 p) (our_as1 ob),
        source_protocol :=
          (case p_source_protocol p of
             None \<Rightarrow> source_protocol ob
           | Some sp \<Rightarrow> if sp \<noteq> [] then Some sp else source_protocol ob),
        atom := (case p_atom p of
                   None \<Rightarrow> atom ob
                 | Some a \<Rightarrow> if a \<noteq> [] then Some a else atom ob),
        rss := (case p_rss p of
                  None \<Rightarrow> rss ob
                | Some a \<Rightarrow> if a \<noteq> [] then Some a else rss ob),
        deleted := (case p_deleted p of
                      None \<Rightarrow> deleted ob
                    | Some b \<Rightarrow> if b then Some True else deleted ob),
        object_copies := (case p_copies p of
                            None \<Rightarrow> object_copies ob
                          | Some cs \<Rightarrow> if cs \<noteq> [] then cs else object_copies ob),
        labels := (case p_labels p of
                     None \<Rightarrow> labels ob
                   | Some ls \<Rightarrow> if ls \<noteq> [] then ls else labels ob)\<rparr>))"

text \<open>\<open>Object(id=id)\<close>.\<close>

definition new_object :: "string \<Rightarrow> Object" where
  "new_object i = \<lparr> object_id = i, source_protocol = None, labels = [], as2 = JNull,
     bsky = JNull, mf2 = JNull, our_as1 = JNull, raw = JNull, atom = None, rss = None,
     deleted = None, object_copies = [], new = None, changed = None \<rparr>"

text \<open>The owners that the authorization check of \<open>get_or_create\<close> compares with.\<close>

definition owners :: "env \<Rightarrow> proto_class \<Rightarrow> json \<Rightarrow> string \<Rightarrow> string list" where
  "owners l proto orig_as1 i =
     map (\<lambda>owner. normalize_user_id l owner proto)
       (get_ids l orig_as1 ''author'' @ get_ids l orig_as1 ''actor'' @ [i])"

text \<open>The first half of \<open>Object.get_or_create\<close>: the stored object, or a new one; for a
  stored one with a canonical form, the authorization of \<open>authed_as\<close>.  It gives the
  object and its prior canonical form.\<close>

definition load_and_authorize :: "env \<Rightarrow> object_store \<Rightarrow> string \<Rightarrow> string option
    \<Rightarrow> py_error + (Object \<times> json)" where
  "load_and_authorize l st i authed_as =
     (case get_object_by_id st i of
        None \<Rightarrow> Inr ((new_object i)\<lparr>new := Some True\<rparr>, JNull)
      | Some ob0 \<Rightarrow>
          (let (orig_as1, ob1) = read_as1 l (ob0\<lparr>new := Some False\<rparr>) in
           if truthy orig_as1 then
             (case authed_as of
                None \<Rightarrow> Inl AssertionError
              | Some authed \<Rightarrow>
                  if authed = [] then Inl AssertionError
                  else (case protocols_get l (source_protocol ob1) of
                          None \<Rightarrow> Inl AssertionError
                        | Some proto \<Rightarrow>
                            if normalize_user_id l authed proto \<notin> set (owners l proto orig_as1 i)
                               \<and> profile_id l authed proto \<notin> set (owners l proto orig_as1 i)
                            then Inl (HTTPError 403)
                            else Inr (ob1, orig_as1)))
           else Inr (ob1, orig_as1)))"

text \<open>
  \<open>Object.get_or_create\<close>, in its transaction: the result and the store afterwards.  An
  exception leaves the store as it was.
\<close>

definition get_or_create :: "env \<Rightarrow> object_store \<Rightarrow> string \<Rightarrow> string option \<Rightarrow> props
    \<Rightarrow> (py_error + Object) \<times> object_store" where
  "get_or_create l st i authed_as p =
     (case load_and_authorize l st i authed_as of
        Inl e \<Rightarrow> (Inl e, st)
      | Inr (ob, orig_as1) \<Rightarrow>
          (case populate l p (if whole_content_supplied p then clear ob else ob) of
             Inl e \<Rightarrow> (Inl e, st)
           | Inr ob2 \<Rightarrow>
               if new ob2 \<noteq> Some True
               then (let (ch, ob3) = object_activity_changed l ob2 orig_as1
                     in object_put l st (ob3\<lparr>changed := Some ch\<rparr>))
               else object_put l st ob2))"

section \<open>User\<close>

text \<open>
  \<open>class User\<close>; \<open>cls\<close> is the subclass the entity is an instance of, \<open>key_id\<close> is
  \<open>self.key.id()\<close>, \<open>obj_attr\<close> is the attribute \<open>_obj\<close> (\<open>None\<close> when the attribute does not
  exist), \<open>handle\<close> is the value of the subclass's computed property.
\<close>

record User =
  cls :: proto_class
  key_id :: string
  obj_key :: "string option"
  obj_attr :: "Object option option"
  use_instead :: "(string \<times> string) option"
  copies :: "Target list"
  direct :: "bool option"
  manual_opt_out :: "bool option"
  enabled_protocols :: "string list"
  handle :: "string option"

text \<open>The property \<open>User.obj\<close>: the profile object, loaded from \<open>obj_key\<close> on first use
  and then kept in \<open>_obj\<close>.  \<open>obj_of\<close> is the property as a function of the two
  fields.\<close>

definition obj_of :: "object_store \<Rightarrow> string option \<Rightarrow> Object option option \<Rightarrow> Object option" where
  "obj_of objs key attr =
     (case key of
        None \<Rightarrow> None
      | Some k \<Rightarrow> (case attr of None \<Rightarrow> get_object_by_id objs k | Some cached \<Rightarrow> cached))"

definition user_obj :: "object_store \<Rightarrow> User \<Rightarrow> Object option" where
  "user_obj objs u = obj_of objs (obj_key u) (obj_attr u)"

text \<open>\<open>User.get_copy\<close>.\<close>

definition get_copy :: "User \<Rightarrow> proto_class \<Rightarrow> string option" where
  "get_copy u p =
     (if LABEL (cls u) = LABEL p then Some (key_id u) else first_copy p (copies u))"

text \<open>A \<open>str\<close> or \<open>None\<close> as a Python value.\<close>

definition opt_str :: "string option \<Rightarrow> json" where
  "opt_str s = (case s of None \<Rightarrow> JNull | Some t \<Rightarrow> JStr t)"

text \<open>
  The computed property \<open>User.status\<close>: \<open>None\<close>, \<open>'opt-out'\<close> or \<open>'blocked'\<close>.
\<close>

definition marker_check :: "string \<Rightarrow> string \<Rightarrow> json \<Rightarrow> py_error + bool" where
  "marker_check marker summary name =
     (if py_substr marker summary then Inr True else py_in marker name)"

definition status :: "env \<Rightarrow> object_store \<Rightarrow> User \<Rightarrow> py_error + string option" where
  "status l objs u =
     (if manual_opt_out u = Some True then Inr (Some ''opt-out'')
      else case user_obj objs u of
        None \<Rightarrow> Inr None
      | Some ob \<Rightarrow>
         (case as1 l ob of
            JDict prof \<Rightarrow>
              if prof = [] then Inr None
              else if REQUIRES_AVATAR (cls u) \<and> \<not> truthy (dict_get prof ''image'')
                then Inr (Some ''blocked'')
              else if REQUIRES_NAME (cls u) \<and>
                  (\<not> truthy (dict_get prof ''displayName'')
                   \<or> dict_get prof ''displayName''
                        \<in> set [opt_str (handle u), JStr (key_id u)])
                then Inr (Some ''blocked'')
              else if REQUIRES_OLD_ACCOUNT (cls u) \<and> truthy (dict_get prof ''published'')
                  \<and> too_young l (dict_get prof ''published'')
                then Inr (Some ''blocked'')
              else
                (let summary = html_to_text l (dict_get_default prof ''summary'' (JStr ''''));
                     name = dict_get_default prof ''displayName'' (JStr '''')
                 in case marker_check ''#nobridge'' summary name of
                      Inl e \<Rightarrow> Inl e
                    | Inr True \<Rightarrow> Inr (Some ''opt-out'')
                    | Inr False \<Rightarrow>
                        if enabled_protocols u \<noteq> [] then Inr None
                        else if \<not> is_public l (JDict prof) then Inr (Some ''opt-out'')
                        else (case marker_check ''#nobot'' summary name of
                                Inl e \<Rightarrow> Inl e
                              | Inr True \<Rightarrow> Inr (Some ''opt-out'')
                              | Inr False \<Rightarrow> Inr None))
          | j \<Rightarrow> if truthy j then Inl AttributeError else Inr None))"


section \<open>Merging keyword arguments into a stored User\<close>

text \<open>
  The keyword arguments of \<open>User.get_or_create\<close> that the merge reads; \<open>None\<close> stands for a
  keyword that is not passed or is passed with \<open>None\<close>.
\<close>

record user_kwargs =
  kw_direct :: "bool option"
  kw_obj :: "Object option"
  kw_obj_key :: "string option"
  kw_enabled_protocols :: "string list option"

text \<open>\<open>getattr(user, 'obj', None)\<close>: the property \<open>User.obj\<close> with its effect, the loaded
  object (or \<open>None\<close>, when the key has no entity) is kept in \<open>_obj\<close>.\<close>

definition read_obj :: "object_store \<Rightarrow> User \<Rightarrow> Object option \<times> User" where
  "read_obj objs u =
     (case obj_key u of
        None \<Rightarrow> (None, u)
      | Some k \<Rightarrow>
          (case obj_attr u of
             None \<Rightarrow> (get_object_by_id objs k, u\<lparr>obj_attr := Some (get_object_by_id objs k)\<rparr>)
           | Some cached \<Rightarrow> (cached, u)))"

text \<open>The setter of \<open>User.obj\<close>, for an object.\<close>

definition set_obj :: "User \<Rightarrow> Object \<Rightarrow> User" where
  "set_obj u ob = u\<lparr>obj_attr := Some (Some ob), obj_key := Some (object_id ob)\<rparr>"

text \<open>The loop over \<open>direct\<close>, \<open>obj\<close> and \<open>obj_key\<close>, one field at a time: the user and
  whether the field was assigned.\<close>

definition merge_direct :: "User \<Rightarrow> user_kwargs \<Rightarrow> User \<times> bool" where
  "merge_direct u kw =
     (if (direct u = None \<and> kw_direct kw \<noteq> None)
         \<or> (direct u \<noteq> Some True \<and> kw_direct kw = Some True)
      then (u\<lparr>direct := kw_direct kw\<rparr>, True)
      else (u, False))"

definition merge_obj :: "object_store \<Rightarrow> User \<Rightarrow> user_kwargs \<Rightarrow> User \<times> bool" where
  "merge_obj objs u kw =
     (let (old_val, u1) = read_obj objs u in
      case kw_obj kw of
        None \<Rightarrow> (u1, False)
      | Some ob \<Rightarrow> if old_val = None then (set_obj u1 ob, True) else (u1, False))"

definition merge_obj_key :: "User \<Rightarrow> user_kwargs \<Rightarrow> User \<times> bool" where
  "merge_obj_key u kw =
     (if obj_key u = None \<and> kw_obj_key kw \<noteq> None
      then (u\<lparr>obj_key := kw_obj_key kw\<rparr>, True)
      else (u, False))"

text \<open>
  \<open>user.enabled_protocols = set(user.enabled_protocols) | set(enabled_protocols)\<close>, for a
  non-empty keyword.  Python leaves the order of the set open; the model keeps the stored
  labels in their order and appends the new ones.  A label outside the property's choices
  (the registry's labels) raises.
\<close>

definition merge_enabled_protocols :: "env \<Rightarrow> User \<Rightarrow> user_kwargs
    \<Rightarrow> py_error + (User \<times> bool)" where
  "merge_enabled_protocols l u kw =
     (case kw_enabled_protocols kw of
        None \<Rightarrow> Inr (u, False)
      | Some ps \<Rightarrow>
          if ps = [] then Inr (u, False)
          else if \<not> set (enabled_protocols u @ ps) \<subseteq> fst ` set (PROTOCOLS l)
            then Inl BadValueError
          else Inr (u\<lparr>enabled_protocols := remdups (enabled_protocols u @ ps)\<rparr>, True))"

text \<open>The merge of \<open>User.get_or_create\<close> (the block that starts with
  \<open>changed = False\<close>): the user and \<open>changed\<close>.\<close>

definition merge_kwargs :: "env \<Rightarrow> object_store \<Rightarrow> User \<Rightarrow> user_kwargs
    \<Rightarrow> py_error + (User \<times> bool)" where
  "merge_kwargs l objs u kw =
     (let (u1, c1) = merge_direct u kw;
          (u2, c2) = merge_obj objs u1 kw;
          (u3, c3) = merge_obj_key u2 kw
      in case merge_enabled_protocols l u3 kw of
           Inl e \<Rightarrow> Inl e
         | Inr (u4, c4) \<Rightarrow> Inr (u4, c1 \<or> c2 \<or> c3 \<or> c4))"

section \<open>Follower\<close>

text \<open>
  \<open>class Follower\<close>.  \<open>follower_from\<close> and \<open>follower_to\<close> (the properties \<open>from_\<close> and \<open>to\<close>) are keys of users, a key being the pair of its kind
  (the name of the user's class, one class per protocol) and its id.  \<open>updated\<close> is set to
  the time of each write (\<open>auto_now\<close>), \<open>created\<close> to the time of the first one.
\<close>

type_synonym user_key = "string \<times> string"

definition user_key_of :: "User \<Rightarrow> user_key" where
  "user_key_of u = (kind_name (cls u), key_id u)"

definition key_kind :: "user_key \<Rightarrow> string" where
  "key_kind k = fst k"

record Follower =
  follower_from :: user_key
  follower_to :: user_key
  follow :: "string option"
  follower_status :: "string option"
  follower_created :: int
  follower_updated :: int

text \<open>The keyword arguments of \<open>Follower.get_or_create\<close> other than \<open>from_\<close> and \<open>to\<close>
  (which are keyword-only parameters, so \<open>kwargs\<close> cannot hold them): \<open>None\<close> when the
  keyword is not passed.\<close>

record follower_kwargs =
  kw_follow :: "string option option"
  kw_status :: "string option option"

definition kwargs_empty :: "follower_kwargs \<Rightarrow> bool" where
  "kwargs_empty kw = (kw_follow kw = None \<and> kw_status kw = None)"

text \<open>The datastore's \<open>Follower\<close> kind, in the order of its keys.\<close>

type_synonym follower_store = "Follower list"

text \<open>\<open>Follower._pre_put_hook\<close>: the assertion that the two users are of different kinds.\<close>

definition follower_pre_put_hook :: "Follower \<Rightarrow> py_error + unit" where
  "follower_pre_put_hook f =
     (if key_kind (follower_from f) \<noteq> key_kind (follower_to f) then Inr () else Inl AssertionError)"

text \<open>The property \<open>status\<close> has \<open>choices=STATUSES\<close>: assigning another string raises.\<close>

definition valid_follower_status :: "string option \<Rightarrow> bool" where
  "valid_follower_status s =
     (case s of None \<Rightarrow> True | Some v \<Rightarrow> v \<in> set [''active'', ''inactive''])"

text \<open>Assigning the keyword arguments, by the constructor or by \<open>setattr\<close>.\<close>

definition apply_kwargs :: "follower_kwargs \<Rightarrow> Follower \<Rightarrow> py_error + Follower" where
  "apply_kwargs kw f =
     (let f1 = (case kw_follow kw of None \<Rightarrow> f | Some v \<Rightarrow> f\<lparr>follow := v\<rparr>)
      in case kw_status kw of
           None \<Rightarrow> Inr f1
         | Some s \<Rightarrow> if valid_follower_status s then Inr (f1\<lparr>follower_status := s\<rparr>)
                     else Inl BadValueError)"

text \<open>\<open>Follower.query(Follower.from_ == a, Follower.to == b).get()\<close>: the position of
  the first stored edge between the two keys.\<close>

fun find_follower :: "follower_store \<Rightarrow> user_key \<Rightarrow> user_key \<Rightarrow> nat option" where
  "find_follower [] a b = None"
| "find_follower (f # fs) a b =
     (if follower_from f = a \<and> follower_to f = b then Some 0
      else map_option Suc (find_follower fs a b))"

text \<open>
  \<open>Follower.get_or_create\<close>, in its transaction: the result and the store afterwards.
  An exception leaves the store as it was.  \<open>now\<close> is the time of the write.
\<close>

definition follower_get_or_create ::
    "int \<Rightarrow> follower_store \<Rightarrow> User option \<Rightarrow> User option \<Rightarrow> follower_kwargs
     \<Rightarrow> (py_error + Follower) \<times> follower_store" where
  "follower_get_or_create now st from_user to_user kw =
     (case from_user of
        None \<Rightarrow> (Inl AssertionError, st)
      | Some fu \<Rightarrow>
         (case to_user of
            None \<Rightarrow> (Inl AssertionError, st)
          | Some tu \<Rightarrow>
             (case find_follower st (user_key_of fu) (user_key_of tu) of
                None \<Rightarrow>
                  (case apply_kwargs kw
                          \<lparr> follower_from = user_key_of fu, follower_to = user_key_of tu, follow = None,
                            follower_status = Some ''active'', follower_created = now,
                            follower_updated = now \<rparr> of
                     Inl e \<Rightarrow> (Inl e, st)
                   | Inr f \<Rightarrow>
                      (case follower_pre_put_hook f of
                         Inl e \<Rightarrow> (Inl e, st)
                       | Inr _ \<Rightarrow> (Inr f, st @ [f])))
              | Some i \<Rightarrow>
                  if \<not> kwargs_empty kw then
                    (case apply_kwargs kw (st ! i) of
                       Inl e \<Rightarrow> (Inl e, st)
                     | Inr f \<Rightarrow>
                        (case follower_pre_put_hook f of
                           Inl e \<Rightarrow> (Inl e, st)
                         | Inr _ \<Rightarrow>
                            (Inr (f\<lparr>follower_updated := now\<rparr>),
                             st[i := f\<lparr>follower_updated := now\<rparr>])))
                  else (Inr (st ! i), st))))"

text \<open>The stores that calls of \<open>get_or_create\<close> produce from the empty store.\<close>

inductive reachable_followers :: "follower_store \<Rightarrow> bool" where
  empty: "reachable_followers []"
| step: "reachable_followers st \<Longrightarrow>
         follower_get_or_create now st fu tu kw = (r, st') \<Longrightarrow>
         reachable_followers st'"

definition cross_protocol :: "Follower \<Rightarrow> bool" where
  "cross_protocol f = (key_kind (follower_from f) \<noteq> key_kind (follower_to f))"

section \<open>Resolving a copy id to its original\<close>

text \<open>
  \<open>get_original_user_key\<close> and \<open>get_original_object_key\<close> find the entity that has a given
  URI among its copies.  Each is wrapped twice: by \<open>functools.lru_cache\<close>, a cache of the
  process, and under it by \<open>memcache_memoize\<close>, a cache shared by all processes.

  The key of an object is its kind, \<open>Object\<close>, and its id.
\<close>

definition object_key_of :: "Object \<Rightarrow> user_key" where
  "object_key_of ob = (''Object'', object_id ob)"

text \<open>Modelled from the spec: \<open>common.pickle_memcache\<close> and \<open>common.memcache_memoize_key\<close>,
  which are defined in \<open>common.py\<close>.  The shared cache is a key-value store with \<open>get\<close> and
  \<open>set\<close>; the entry of a memoized function is keyed by the function and its argument, the
  foreign id.  A cached value is a key, or \<open>None\<close> for a resolution that found nothing.
  The newest entry of a key is the first one in the list.  No entry expires between the
  steps that the model describes.\<close>

type_synonym memcache_key = "string \<times> string"

type_synonym memcache_store = "(memcache_key \<times> user_key option) list"

definition memcache_memoize_key :: "string \<Rightarrow> string \<Rightarrow> memcache_key" where
  "memcache_memoize_key fn arg = (fn, arg)"

definition pickle_memcache_get :: "memcache_store \<Rightarrow> memcache_key \<Rightarrow> user_key option option" where
  "pickle_memcache_get m k = map_of m k"

definition pickle_memcache_set :: "memcache_store \<Rightarrow> memcache_key \<Rightarrow> user_key option
    \<Rightarrow> memcache_store" where
  "pickle_memcache_set m k v = (k, v) # m"

text \<open>
  The state that a resolution reads and writes: the shared cache, the two caches of
  \<open>lru_cache\<close> (one per decorated function, most recently used entry first), and the number
  of datastore queries run so far.
\<close>

record resolver_state =
  memcache :: memcache_store
  lru_object :: "(string \<times> user_key option) list"
  lru_user :: "(string \<times> user_key option) list"
  queries :: nat

text \<open>\<open>functools.lru_cache(maxsize=100000)\<close>: a hit moves the entry to the front; a miss
  stores the result (whatever it is, \<open>None\<close> too) and drops the least recently used entry
  when the cache is full.  A call that raises stores nothing.\<close>

definition lru_maxsize :: nat where
  "lru_maxsize = 100000"

definition lru_touch :: "(string \<times> 'v) list \<Rightarrow> string \<Rightarrow> 'v \<Rightarrow> (string \<times> 'v) list" where
  "lru_touch cache k v = (k, v) # filter (\<lambda>e. fst e \<noteq> k) cache"

definition lru_store :: "(string \<times> 'v) list \<Rightarrow> string \<Rightarrow> 'v \<Rightarrow> (string \<times> 'v) list" where
  "lru_store cache k v = take lru_maxsize ((k, v) # cache)"

text \<open>Modelled from the spec: the decorator \<open>common.memcache_memoize\<close>, a read-through
  cache in front of the decorated function: a call whose entry is in the shared cache
  returns the cached value without running the function; otherwise the function runs and
  its result is stored.  \<open>f\<close> is the decorated function; it takes the number of queries run
  so far and returns it updated.\<close>

definition memcache_memoize :: "string \<Rightarrow> (string \<Rightarrow> nat \<Rightarrow> (py_error + user_key option) \<times> nat)
    \<Rightarrow> string \<Rightarrow> resolver_state \<Rightarrow> (py_error + user_key option) \<times> resolver_state" where
  "memcache_memoize fn f arg s =
     (case pickle_memcache_get (memcache s) (memcache_memoize_key fn arg) of
        Some v \<Rightarrow> (Inr v, s)
      | None \<Rightarrow>
          (case f arg (queries s) of
             (Inl e, q) \<Rightarrow> (Inl e, s\<lparr>queries := q\<rparr>)
           | (Inr v, q) \<Rightarrow>
               (Inr v, s\<lparr>queries := q,
                         memcache := pickle_memcache_set (memcache s)
                                       (memcache_memoize_key fn arg) v\<rparr>)))"

text \<open>The body of \<open>get_original_object_key\<close>:
  \<open>Object.query(Object.copies.uri == copy_id).get(keys_only=True)\<close>, the first stored
  object with the URI among its copies.\<close>

definition object_copies_query :: "object_store \<Rightarrow> string \<Rightarrow> user_key option" where
  "object_copies_query objs copy_id =
     map_option object_key_of
       (find (\<lambda>ob. copy_id \<in> set (map uri (object_copies ob))) objs)"

definition get_original_object_key_wrapped :: "object_store \<Rightarrow> string \<Rightarrow> nat
    \<Rightarrow> (py_error + user_key option) \<times> nat" where
  "get_original_object_key_wrapped objs copy_id q =
     (if copy_id = [] then (Inl AssertionError, q)
      else (Inr (object_copies_query objs copy_id), q + 1))"

text \<open>The body of \<open>get_original_user_key\<close>: one query per registered class that is not the
  UI's and does not own the id, in the order of the registry, until one finds a user.\<close>

definition user_copies_query :: "User list \<Rightarrow> proto_class \<Rightarrow> string \<Rightarrow> user_key option" where
  "user_copies_query users proto copy_id =
     map_option user_key_of
       (find (\<lambda>u. kind_name (cls u) = kind_name proto
                    \<and> copy_id \<in> set (map uri (copies u))) users)"

fun query_protocols :: "env \<Rightarrow> User list \<Rightarrow> string \<Rightarrow> proto_class option list \<Rightarrow> nat
    \<Rightarrow> user_key option \<times> nat" where
  "query_protocols l users copy_id [] q = (None, q)"
| "query_protocols l users copy_id (None # ps) q = query_protocols l users copy_id ps q"
| "query_protocols l users copy_id (Some proto # ps) q =
     (if LABEL proto \<noteq> ''ui'' \<and> owns_id l proto copy_id \<noteq> Some True
      then (case user_copies_query users proto copy_id of
              Some orig \<Rightarrow> (Some orig, q + 1)
            | None \<Rightarrow> query_protocols l users copy_id ps (q + 1))
      else query_protocols l users copy_id ps q)"

definition get_original_user_key_wrapped :: "env \<Rightarrow> User list \<Rightarrow> string \<Rightarrow> nat
    \<Rightarrow> (py_error + user_key option) \<times> nat" where
  "get_original_user_key_wrapped l users copy_id q =
     (if copy_id = [] then (Inl AssertionError, q)
      else (case query_protocols l users copy_id (map snd (PROTOCOLS l)) q of
              (orig, q') \<Rightarrow> (Inr orig, q')))"

text \<open>The decorated functions.\<close>

definition get_original_object_key :: "object_store \<Rightarrow> string \<Rightarrow> resolver_state
    \<Rightarrow> (py_error + user_key option) \<times> resolver_state" where
  "get_original_object_key objs copy_id s =
     (case map_of (lru_object s) copy_id of
        Some v \<Rightarrow> (Inr v, s\<lparr>lru_object := lru_touch (lru_object s) copy_id v\<rparr>)
      | None \<Rightarrow>
          (case memcache_memoize ''get_original_object_key''
                  (get_original_object_key_wrapped objs) copy_id s of
             (Inl e, s1) \<Rightarrow> (Inl e, s1)
           | (Inr v, s1) \<Rightarrow> (Inr v, s1\<lparr>lru_object := lru_store (lru_object s1) copy_id v\<rparr>)))"

definition get_original_user_key :: "env \<Rightarrow> User list \<Rightarrow> string \<Rightarrow> resolver_state
    \<Rightarrow> (py_error + user_key option) \<times> resolver_state" where
  "get_original_user_key l users copy_id s =
     (case map_of (lru_user s) copy_id of
        Some v \<Rightarrow> (Inr v, s\<lparr>lru_user := lru_touch (lru_user s) copy_id v\<rparr>)
      | None \<Rightarrow>
          (case memcache_memoize ''get_original_user_key''
                  (get_original_user_key_wrapped l users) copy_id s of
             (Inl e, s1) \<Rightarrow> (Inl e, s1)
           | (Inr v, s1) \<Rightarrow> (Inr v, s1\<lparr>lru_user := lru_store (lru_user s1) copy_id v\<rparr>)))"

text \<open>\<open>util.add\<close> of webutil: appends a value that the list does not hold yet.\<close>

definition util_add :: "'a list \<Rightarrow> 'a \<Rightarrow> 'a list" where
  "util_add seq val = (if val \<in> set seq then seq else seq @ [val])"

text \<open>\<open>User.add\<close> and \<open>Object.add\<close>, for the multiply-valued properties of the model.  The
  entity changes in memory (nothing is written to the datastore); for \<open>copies\<close> the entry
  of the shared cache for the target's URI is set to the entity's key.\<close>

datatype user_prop = UserCopies Target | UserEnabledProtocols string

datatype object_prop = ObjectCopies Target | ObjectLabels string

definition user_add :: "User \<Rightarrow> user_prop \<Rightarrow> resolver_state \<Rightarrow> User \<times> resolver_state" where
  "user_add u pv s =
     (case pv of
        UserCopies val \<Rightarrow>
          (u\<lparr>copies := util_add (copies u) val\<rparr>,
           s\<lparr>memcache := pickle_memcache_set (memcache s)
                 (memcache_memoize_key ''get_original_user_key'' (uri val))
                 (Some (user_key_of u))\<rparr>)
      | UserEnabledProtocols val \<Rightarrow>
          (u\<lparr>enabled_protocols := util_add (enabled_protocols u) val\<rparr>, s))"

definition object_add :: "Object \<Rightarrow> object_prop \<Rightarrow> resolver_state \<Rightarrow> Object \<times> resolver_state" where
  "object_add ob pv s =
     (case pv of
        ObjectCopies val \<Rightarrow>
          (ob\<lparr>object_copies := util_add (object_copies ob) val\<rparr>,
           s\<lparr>memcache := pickle_memcache_set (memcache s)
                 (memcache_memoize_key ''get_original_object_key'' (uri val))
                 (Some (object_key_of ob))\<rparr>)
      | ObjectLabels val \<Rightarrow> (ob\<lparr>labels := util_add (labels ob) val\<rparr>, s))"

section \<open>Cursor-based paging\<close>

text \<open>
  What \<open>fetch_page\<close> reads of an entity (an \<open>Object\<close> or a \<open>Follower\<close>): its key and its
  two timestamps.  A timestamp is a naive UTC \<open>datetime\<close>, here a number; the cursors
  that \<open>fetch_page\<close> returns are the \<open>isoformat()\<close> of such timestamps, here the timestamps
  themselves.
\<close>

record entity =
  entity_key :: string
  created :: int
  updated :: int

text \<open>The paging property \<open>by\<close>: \<open>Object.created\<close>, or the \<open>updated\<close> of either class.\<close>

datatype by_prop = ByCreated | ByUpdated

fun by_value :: "by_prop \<Rightarrow> entity \<Rightarrow> int" where
  "by_value ByCreated r = created r"
| "by_value ByUpdated r = updated r"

definition PAGE_SIZE :: nat where
  "PAGE_SIZE = 20"

text \<open>\<open>get_paging_param\<close>, the helper nested in \<open>fetch_page\<close>: the query parameter of the
  request, parsed; a parameter that does not parse is a request error (\<open>error\<close> raises
  with status 400).\<close>

definition get_paging_param :: "env \<Rightarrow> string option \<Rightarrow> py_error + int option" where
  "get_paging_param l val =
     (case val of
        None \<Rightarrow> Inr None
      | Some v \<Rightarrow>
          if v = [] then Inr None
          else (case parse_iso8601 l (map (\<lambda>c. if c = CHR '' '' then CHR ''+'' else c) v) of
                  None \<Rightarrow> Inl (HTTPError 400)
                | Some dt \<Rightarrow> Inr (Some dt)))"

text \<open>The datastore query, as the list of the entities it matches: \<open>query.order(by)\<close>
  and \<open>query.order(-by)\<close> sort it, \<open>query.filter\<close> filters it.\<close>

definition order_asc :: "by_prop \<Rightarrow> entity list \<Rightarrow> entity list" where
  "order_asc by_p q = sort_key (by_value by_p) q"

definition order_desc :: "by_prop \<Rightarrow> entity list \<Rightarrow> entity list" where
  "order_desc by_p q = sort_key (\<lambda>r. - by_value by_p r) q"

text \<open>\<open>sorted(page, key=lambda r: r.updated, reverse=True)\<close>: stable, largest first.\<close>

definition sorted_updated_desc :: "entity list \<Rightarrow> entity list" where
  "sorted_updated_desc page = sort_key (\<lambda>r. - updated r) page"

text \<open>
  \<open>fetch_page\<close>: \<open>query\<close> is what the query given to it matches, \<open>before_param\<close> and
  \<open>after_param\<close> are the request's query parameters.  The result is the page,
  \<open>new_before\<close> and \<open>new_after\<close>.  \<open>probably_has_next\<close> is taken as exact: the query has
  more results than the page took.
\<close>

definition fetch_page :: "env \<Rightarrow> entity list \<Rightarrow> by_prop option \<Rightarrow> string option
    \<Rightarrow> string option \<Rightarrow> py_error + (entity list \<times> int option \<times> int option)" where
  "fetch_page l query by_opt before_param after_param =
     (case by_opt of
        None \<Rightarrow> Inl AssertionError
      | Some by_p \<Rightarrow>
         (case get_paging_param l before_param of
            Inl e \<Rightarrow> Inl e
          | Inr before_dt \<Rightarrow>
             (case get_paging_param l after_param of
                Inl e \<Rightarrow> Inl e
              | Inr after_dt \<Rightarrow>
                 if before_dt \<noteq> None \<and> after_dt \<noteq> None then Inl (HTTPError 400)
                 else
                   (let matched =
                          (case after_dt of
                             Some a \<Rightarrow> order_asc by_p (filter (\<lambda>r. by_value by_p r \<ge> a) query)
                           | None \<Rightarrow>
                              (case before_dt of
                                 Some b \<Rightarrow> order_desc by_p (filter (\<lambda>r. by_value by_p r < b) query)
                               | None \<Rightarrow> order_desc by_p query));
                        results = sorted_updated_desc (take PAGE_SIZE matched);
                        has_next = (results \<noteq> [] \<and> length matched > PAGE_SIZE);
                        new_after =
                          (case before_dt of
                             Some b \<Rightarrow> Some b
                           | None \<Rightarrow> if has_next \<and> after_dt \<noteq> None
                                     then Some (updated (hd results)) else None);
                        new_before =
                          (case after_dt of
                             Some a \<Rightarrow> Some a
                           | None \<Rightarrow> if has_next then Some (updated (last results)) else None)
                    in Inr (results, new_before, new_after)))))"

section \<open>Resolving the ids of an activity\<close>

text \<open>\<open>util.trim_nulls\<close> of webutil: removes, at every depth, the dict entries and list
  elements whose (trimmed) value is \<open>None\<close> or empty (\<open>{}\<close>, \<open>[]\<close>, \<open>''\<close>).\<close>

definition is_null :: "json \<Rightarrow> bool" where
  "is_null v = (v \<in> {JNull, JDict [], JList [], JStr []})"

fun trim_nulls :: "json \<Rightarrow> json" where
  "trim_nulls (JDict kvs) =
     JDict (filter (\<lambda>(k, v). \<not> is_null v) (map (\<lambda>(k, v). (k, trim_nulls v)) kvs))"
| "trim_nulls (JList xs) = JList (filter (\<lambda>v. \<not> is_null v) (map trim_nulls xs))"
| "trim_nulls j = j"

text \<open>\<open>util.get_first\<close> of webutil (the first element of a list value, or the value, or the
  default for a missing or falsy value) and \<open>as1.get_object\<close> of granary (the field's first
  value as an object: a string \<open>s\<close> becomes \<open>{'id': s}\<close>, nothing becomes \<open>{}\<close>).\<close>

definition get_first :: "(string \<times> json) list \<Rightarrow> string \<Rightarrow> json \<Rightarrow> json" where
  "get_first obj k dflt =
     (case dict_get obj k of
        JList (x # xs) \<Rightarrow> x
      | v \<Rightarrow> if truthy v then v else dflt)"

definition get_object :: "(string \<times> json) list \<Rightarrow> string \<Rightarrow> json" where
  "get_object obj field =
     (let v = get_first obj field (JDict []) in
      case (if truthy v then v else JDict []) of
        JStr s \<Rightarrow> JDict [(''id'', JStr s)]
      | val \<Rightarrow> val)"

text \<open>
  The two resolvers, \<open>get_original_object_key\<close> and \<open>get_original_user_key\<close>, are arguments
  of the model: a function from the id that \<open>replace\<close> passes to the key found, to \<open>None\<close>, or
  to the error the call raises.
\<close>

type_synonym lookup = "json \<Rightarrow> py_error + user_key option"

text \<open>Sequencing of calls that may raise.\<close>

definition and_then :: "py_error + 'a \<Rightarrow> ('a \<Rightarrow> py_error + 'b) \<Rightarrow> py_error + 'b" where
  "and_then r f = (case r of Inl e \<Rightarrow> Inl e | Inr x \<Rightarrow> f x)"

text \<open>\<open>util.trim_nulls(val).keys() > {'id'}\<close>: the trimmed dict has the key \<open>id\<close> and at least
  one other key.\<close>

definition keys_beyond_id :: "json \<Rightarrow> bool" where
  "keys_beyond_id val =
     (case trim_nulls val of
        JDict t \<Rightarrow> ''id'' \<in> set (map fst t) \<and> filter (\<lambda>k. k \<noteq> ''id'') (map fst t) \<noteq> []
      | _ \<Rightarrow> False)"

text \<open>\<open>val.get('id') if isinstance(val, dict) else val\<close>.\<close>

definition ref_id :: "json \<Rightarrow> json" where
  "ref_id val = (case val of JDict d \<Rightarrow> dict_get d ''id'' | _ \<Rightarrow> val)"

text \<open>
  \<open>replace\<close>, the function nested in \<open>resolve_ids\<close>.  The result is the value returned,
  whether the returned object is the argument itself (which the call may have changed in
  place), and whether the call set \<open>replaced\<close>.
\<close>

definition replace :: "lookup \<Rightarrow> json \<Rightarrow> py_error + (json \<times> bool \<times> bool)" where
  "replace orig_fn val =
     (if \<not> truthy (ref_id val) then Inr (ref_id val, False, False)
      else and_then (orig_fn (ref_id val)) (\<lambda>orig.
        case orig of
          None \<Rightarrow> Inr (val, True, False)
        | Some k \<Rightarrow>
            (case val of
               JDict d \<Rightarrow>
                 if keys_beyond_id val
                 then Inr (JDict (dict_set d ''id'' (JStr (snd k))), True, True)
                 else Inr (JStr (snd k), False, True)
             | _ \<Rightarrow> Inr (JStr (snd k), False, True))))"

definition replace_val :: "lookup \<Rightarrow> json \<Rightarrow> py_error + (json \<times> bool)" where
  "replace_val orig_fn val = and_then (replace orig_fn val) (\<lambda>(v, same, r). Inr (v, r))"

text \<open>A loop that replaces every value of a list: the new values and whether any call set
  \<open>replaced\<close>.\<close>

fun replace_all :: "(json \<Rightarrow> py_error + (json \<times> bool)) \<Rightarrow> json list
    \<Rightarrow> py_error + (json list \<times> bool)" where
  "replace_all f [] = Inr ([], False)"
| "replace_all f (x # xs) =
     and_then (f x) (\<lambda>(v, r).
       and_then (replace_all f xs) (\<lambda>(vs, rs). Inr (v # vs, r \<or> rs)))"

text \<open>
  The loop over \<open>as1.get_objects(obj, 'tags')\<close>.  A tag that is a dict is changed in place; a
  tag that is a string is looked at as \<open>{'id': tag}\<close>, which is no mention; any other tag has
  no \<open>get\<close>.  The field keeps its shape: a list stays a list, a single tag stays single.
\<close>

definition replace_tag :: "lookup \<Rightarrow> json \<Rightarrow> py_error + (json \<times> bool)" where
  "replace_tag orig_user tag =
     (case tag of
        JDict t \<Rightarrow>
          if dict_get t ''objectType'' = JStr ''mention''
          then and_then (replace_val orig_user (dict_get t ''url''))
                 (\<lambda>(v, r). Inr (JDict (dict_set t ''url'' v), r))
          else Inr (tag, False)
      | JStr s \<Rightarrow> Inr (tag, False)
      | _ \<Rightarrow> Inl AttributeError)"

definition resolve_tags :: "lookup \<Rightarrow> (string \<times> json) list
    \<Rightarrow> py_error + ((string \<times> json) list \<times> bool)" where
  "resolve_tags orig_user obj =
     and_then (replace_all (replace_tag orig_user) (get_list obj ''tags'')) (\<lambda>(ts, r).
       Inr (case (dict_get obj ''tags'', ts) of
              (JList old, _) \<Rightarrow> dict_set obj ''tags'' (JList ts)
            | (_, [t]) \<Rightarrow> dict_set obj ''tags'' t
            | _ \<Rightarrow> obj, r))"

text \<open>\<open>obj[field] = [replace(val, fn) for val in util.get_list(obj, field)]\<close>, and a list of
  one value is replaced by the value.\<close>

definition collapse :: "json list \<Rightarrow> json" where
  "collapse vs = (case vs of [v] \<Rightarrow> v | _ \<Rightarrow> JList vs)"

definition resolve_field :: "lookup \<Rightarrow> string \<Rightarrow> (string \<times> json) list
    \<Rightarrow> py_error + ((string \<times> json) list \<times> bool)" where
  "resolve_field fn field obj =
     and_then (replace_all (replace_val fn) (get_list obj field)) (\<lambda>(vs, r).
       Inr (dict_set obj field (collapse vs), r))"

text \<open>The body of \<open>for obj in outer_obj, inner_obj\<close>, for one \<open>obj\<close>: its tags, then
  \<open>actor\<close>, \<open>author\<close> and \<open>inReplyTo\<close>.  An \<open>obj\<close> that is no dict has no \<open>get\<close>.\<close>

definition resolve_fields :: "lookup \<Rightarrow> lookup \<Rightarrow> json \<Rightarrow> py_error + (json \<times> bool)" where
  "resolve_fields orig_object orig_user obj =
     (case obj of
        JDict d \<Rightarrow>
          and_then (resolve_tags orig_user d) (\<lambda>(d1, r1).
          and_then (resolve_field orig_user ''actor'' d1) (\<lambda>(d2, r2).
          and_then (resolve_field orig_user ''author'' d2) (\<lambda>(d3, r3).
          and_then (resolve_field orig_object ''inReplyTo'' d3) (\<lambda>(d4, r4).
            Inr (JDict d4, r1 \<or> r2 \<or> r3 \<or> r4)))))
      | _ \<Rightarrow> Inl AttributeError)"

text \<open>
  The two calls of \<open>replace\<close> on \<open>inner_obj\<close>: as a copy of an object, then, when nothing was
  replaced, as a copy of a user.  The result is the value assigned to
  \<open>outer_obj['object']\<close>, whether it is \<open>inner_obj\<close> itself, and \<open>replaced\<close>.
\<close>

definition resolve_object :: "lookup \<Rightarrow> lookup \<Rightarrow> json \<Rightarrow> py_error + (json \<times> bool \<times> bool)" where
  "resolve_object orig_object orig_user inner_obj =
     and_then (replace orig_object inner_obj) (\<lambda>(v, same, r).
       if r then Inr (v, same, r)
       else replace orig_user inner_obj)"

text \<open>
  \<open>resolve_ids\<close> from \<open>inner_obj = outer_obj['object'] = as1.get_object(outer_obj)\<close> to the
  end of the loops: the final \<open>outer_obj\<close> and \<open>replaced\<close>.  \<open>inner_obj\<close> is changed in place
  by \<open>replace\<close> and by the loops; \<open>outer_obj['object']\<close> shows these changes when it still is
  \<open>inner_obj\<close>.  An \<open>outer_obj\<close> that is no dict cannot be assigned to (when it is falsy) or
  has no \<open>get\<close>.
\<close>

definition resolve_outer :: "lookup \<Rightarrow> lookup \<Rightarrow> json \<Rightarrow> py_error + (json \<times> bool)" where
  "resolve_outer orig_object orig_user outer_obj =
     (case outer_obj of
        JDict outer \<Rightarrow>
          (let inner_obj = get_object outer ''object'' in
           and_then (resolve_object orig_object orig_user inner_obj) (\<lambda>(v, same, r).
           and_then (resolve_fields orig_object orig_user
                       (JDict (dict_set outer ''object'' v))) (\<lambda>(outer1, r1).
           and_then (resolve_fields orig_object orig_user (if same then v else inner_obj))
             (\<lambda>(inner1, r2).
               Inr (if same
                    then (case outer1 of
                            JDict d \<Rightarrow> JDict (dict_set d ''object'' inner1)
                          | j \<Rightarrow> j)
                    else outer1,
                    r \<or> r1 \<or> r2)))))
      | j \<Rightarrow> if truthy j then Inl AttributeError else Inl TypeError)"



section \<open>Reference statements\<close>

text \<open>A copy matches a protocol by the protocol's label or abbreviation.\<close>

definition copy_matches :: "proto_class \<Rightarrow> Target \<Rightarrow> bool" where
  "copy_matches p c = (protocol c = LABEL p \<or> Some (protocol c) = ABBREV p)"

text \<open>The documented precedence of \<open>status\<close> (the ten numbered rules, first match wins),
  written as a rule list.  \<open>profile_of\<close> is the loaded profile's canonical form, empty when
  there is none; \<open>spam_blocked\<close> joins the avatar, name and account-age rules, which all
  give \<open>'blocked'\<close>; \<open>has_marker\<close> says that the text of the summary or the display name
  contains the marker.\<close>

fun first_match :: "(bool \<times> 'a) list \<Rightarrow> 'a \<Rightarrow> 'a" where
  "first_match [] d = d"
| "first_match ((c, r) # rs) d = (if c then r else first_match rs d)"

definition profile_of :: "env \<Rightarrow> object_store \<Rightarrow> User \<Rightarrow> (string \<times> json) list" where
  "profile_of l objs u =
     (case user_obj objs u of
        None \<Rightarrow> []
      | Some ob \<Rightarrow> (case as1 l ob of JDict prof \<Rightarrow> prof | _ \<Rightarrow> []))"

definition has_marker :: "env \<Rightarrow> string \<Rightarrow> (string \<times> json) list \<Rightarrow> bool" where
  "has_marker l marker prof =
     (py_substr marker (html_to_text l (dict_get_default prof ''summary'' (JStr '''')))
      \<or> py_in marker (dict_get_default prof ''displayName'' (JStr '''')) = Inr True)"

definition spam_blocked :: "env \<Rightarrow> User \<Rightarrow> (string \<times> json) list \<Rightarrow> bool" where
  "spam_blocked l u prof =
     first_match
       [(REQUIRES_AVATAR (cls u) \<and> \<not> truthy (dict_get prof ''image''), True),
        (REQUIRES_NAME (cls u) \<and>
           (\<not> truthy (dict_get prof ''displayName'')
            \<or> dict_get prof ''displayName'' = opt_str (handle u)
            \<or> dict_get prof ''displayName'' = JStr (key_id u)), True),
        (REQUIRES_OLD_ACCOUNT (cls u) \<and> truthy (dict_get prof ''published'')
           \<and> too_young l (dict_get prof ''published''), True)]
       False"

definition status_documented :: "env \<Rightarrow> object_store \<Rightarrow> User \<Rightarrow> string option" where
  "status_documented l objs u =
     (let prof = profile_of l objs u in
      first_match
        [(manual_opt_out u = Some True, Some ''opt-out''),
         (prof = [], None),
         (spam_blocked l u prof, Some ''blocked''),
         (has_marker l ''#nobridge'' prof, Some ''opt-out''),
         (enabled_protocols u \<noteq> [], None),
         (\<not> is_public l (JDict prof), Some ''opt-out''),
         (has_marker l ''#nobot'' prof, Some ''opt-out'')]
        None)"

text \<open>A profile is well typed when its canonical form is a dict (or absent) whose
  \<open>displayName\<close>, if any, is a string (or another container): then
  \<open>'#nobridge' in name\<close> cannot raise.\<close>

fun iterable :: "json \<Rightarrow> bool" where
  "iterable (JStr s) = True"
| "iterable (JList xs) = True"
| "iterable (JDict d) = True"
| "iterable j = False"

definition profile_well_typed :: "env \<Rightarrow> object_store \<Rightarrow> User \<Rightarrow> bool" where
  "profile_well_typed l objs u =
     (case user_obj objs u of
        None \<Rightarrow> True
      | Some ob \<Rightarrow>
          (case as1 l ob of
             JNull \<Rightarrow> True
           | JDict prof \<Rightarrow> iterable (dict_get_default prof ''displayName'' (JStr ''''))
           | _ \<Rightarrow> False))"

text \<open>A page of a query's ordered matches: the first \<open>PAGE_SIZE\<close> of them, in the order of
  their \<open>updated\<close> timestamps, latest first.\<close>

definition descending_by :: "(entity \<Rightarrow> int) \<Rightarrow> entity list \<Rightarrow> bool" where
  "descending_by f page = (\<forall>j < length page. \<forall>i < j. f (page ! j) \<le> f (page ! i))"

definition page_of :: "entity list \<Rightarrow> entity list \<Rightarrow> bool" where
  "page_of page matched =
     (mset page = mset (take PAGE_SIZE matched) \<and> length page \<le> PAGE_SIZE
      \<and> descending_by updated page)"






text \<open>The index for the primary object: a copy of a known object, and when that finds
  nothing, a copy of a known user.\<close>

definition first_index :: "lookup \<Rightarrow> lookup \<Rightarrow> lookup" where
  "first_index orig_object orig_user j =
     (case orig_object j of Inr None \<Rightarrow> orig_user j | found \<Rightarrow> found)"




section \<open>Sample data\<close>

text \<open>Sample protocol classes: one without spam-filter gates, one that requires an
  avatar and materialises copies, and a third one.\<close>

definition proto_a :: proto_class where
  "proto_a = \<lparr> kind_name = ''ActivityPub'', LABEL = ''activitypub'', ABBREV = Some ''ap'',
     HAS_COPIES = False, REQUIRES_AVATAR = False, REQUIRES_NAME = False,
     REQUIRES_OLD_ACCOUNT = False, DEFAULT_ENABLED_PROTOCOLS = [''web''] \<rparr>"

definition proto_b :: proto_class where
  "proto_b = \<lparr> kind_name = ''ATProto'', LABEL = ''atproto'', ABBREV = Some ''bsky'',
     HAS_COPIES = True, REQUIRES_AVATAR = True, REQUIRES_NAME = False,
     REQUIRES_OLD_ACCOUNT = True, DEFAULT_ENABLED_PROTOCOLS = [''web''] \<rparr>"

definition proto_w :: proto_class where
  "proto_w = \<lparr> kind_name = ''Web'', LABEL = ''web'', ABBREV = Some ''web'',
     HAS_COPIES = False, REQUIRES_AVATAR = False, REQUIRES_NAME = False,
     REQUIRES_OLD_ACCOUNT = False, DEFAULT_ENABLED_PROTOCOLS = [''activitypub''] \<rparr>"

text \<open>A sample environment: the registry of the three classes; the conversions keep
  the JSON as it is, the text of a summary is the summary, every profile is public and old
  enough, ids are already normal, three dates parse (to their day of the month).\<close>

definition plain_env :: env where
  "plain_env = \<lparr>
     PROTOCOLS = [(''activitypub'', Some proto_a), (''ap'', Some proto_a),
                  (''atproto'', Some proto_b), (''bsky'', Some proto_b),
                  (''ostatus'', None), (''web'', Some proto_w), (''webmention'', Some proto_w),
                  (''ui'', None)],
     unwrap = (\<lambda>j. j),
     as2_to_as1 = (\<lambda>j. j),
     bsky_to_as1 = (\<lambda>i j. j),
     mf2_to_as1 = (\<lambda>j. j),
     is_url_or_domain = (\<lambda>j. True),
     get_url = (\<lambda>j. JNull),
     html_to_text = (\<lambda>j. case j of JStr s \<Rightarrow> s | _ \<Rightarrow> []),
     is_public = (\<lambda>j. True),
     too_young = (\<lambda>j. False),
     get_ids = (\<lambda>j f. case j of
                  JDict d \<Rightarrow> (case dict_get d f of JStr s \<Rightarrow> [s] | _ \<Rightarrow> [])
                | _ \<Rightarrow> []),
     activity_changed = (\<lambda>a b. a \<noteq> b),
     normalize_user_id = (\<lambda>i p. i),
     profile_id = (\<lambda>i p. i),
     owns_id = (\<lambda>p i. None),
     at_uri_repo = (\<lambda>i. takeWhile (\<lambda>c. c \<noteq> CHR ''/'') (drop 5 i)),
     parse_iso8601 = map_of [(''2024-01-02'', 2), (''2024-01-04'', 4), (''2024-01-05'', 5)] \<rparr>"

definition new_user :: "proto_class \<Rightarrow> string \<Rightarrow> User" where
  "new_user c i = \<lparr> cls = c, key_id = i, obj_key = None, obj_attr = None,
     use_instead = None, copies = [], direct = Some False, manual_opt_out = None,
     enabled_protocols = [], handle = None \<rparr>"

text \<open>A profile whose bio carries the marker, and its owner on either protocol, opted in
  to the other one.\<close>

definition nobridge_profile :: Object where
  "nobridge_profile = (new_object ''https://inst.example/alice'')
     \<lparr> our_as1 := JDict [(''displayName'', JStr ''Alice''),
                         (''summary'', JStr ''hi! #nobridge please'')] \<rparr>"

definition alice_a :: User where
  "alice_a = (new_user proto_a ''https://inst.example/alice'')
     \<lparr> obj_key := Some ''https://inst.example/alice'', enabled_protocols := [''atproto''] \<rparr>"

definition alice_b :: User where
  "alice_b = (new_user proto_b ''https://inst.example/alice'')
     \<lparr> obj_key := Some ''https://inst.example/alice'',
       enabled_protocols := [''activitypub''] \<rparr>"

text \<open>A user with two copies that both match the second protocol, and a note native to
  it with one copy.\<close>

definition bob_a :: User where
  "bob_a = (new_user proto_a ''https://inst.example/bob'')
     \<lparr> copies := [\<lparr> uri = ''did:plc:bob'', protocol = ''atproto'' \<rparr>,
                   \<lparr> uri = ''did:plc:bob2'', protocol = ''bsky'' \<rparr>] \<rparr>"

definition note_b :: Object where
  "note_b = (new_object ''at://did:plc:bob/app.bsky.feed.post/1'')
     \<lparr> source_protocol := Some ''bsky'',
       object_copies := [\<lparr> uri = ''https://inst.example/notes/1'',
                           protocol = ''activitypub'' \<rparr>] \<rparr>"

text \<open>A user of the second protocol, the call without keyword arguments, and the edge
  that the first follow from one sample user to the other creates at time 1.\<close>

definition carol_b :: User where
  "carol_b = new_user proto_b ''did:plc:carol''"

definition no_kwargs :: follower_kwargs where
  "no_kwargs = \<lparr> kw_follow = None, kw_status = None \<rparr>"

definition bob_follows_carol :: Follower where
  "bob_follows_carol = \<lparr> follower_from = (''ActivityPub'', ''https://inst.example/bob''),
     follower_to = (''ATProto'', ''did:plc:carol''), follow = None,
     follower_status = Some ''active'', follower_created = 1, follower_updated = 1 \<rparr>"

text \<open>Entities for paging: two whose creation order is the reverse of their update order,
  and a query of one old entity and twenty-two later ones.\<close>

definition item :: "string \<Rightarrow> int \<Rightarrow> int \<Rightarrow> entity" where
  "item k c u = \<lparr> entity_key = k, created = c, updated = u \<rparr>"

definition long_query :: "entity list" where
  "long_query = item ''old'' 3 3 # map (\<lambda>n. item ''e'' n n) [7..28]"

definition two_items :: "entity list" where
  "two_items = [item ''a'' 1 5, item ''b'' 2 3]"

text \<open>A stored note of the first protocol with its author, a stored object without a
  source protocol (as a test fixture creates it), and keyword arguments.\<close>

definition alice_note :: Object where
  "alice_note = (new_object ''https://inst.example/notes/1'')
     \<lparr> source_protocol := Some ''activitypub'',
       as2 := JDict [(''type'', JStr ''Note''),
                     (''id'', JStr ''https://inst.example/notes/1''),
                     (''actor'', JStr ''https://inst.example/alice''),
                     (''content'', JStr ''hello'')] \<rparr>"

definition plain_object :: Object where
  "plain_object = (new_object ''foo'') \<lparr> our_as1 := JDict [(''x'', JStr ''y'')] \<rparr>"

definition no_props :: props where
  "no_props = \<lparr> p_as2 = None, p_bsky = None, p_mf2 = None, p_raw = None, p_our_as1 = None,
     p_source_protocol = None, p_atom = None, p_rss = None, p_deleted = None,
     p_copies = None, p_labels = None \<rparr>"








text \<open>A direct user whose profile key points at an object that is not stored, a profile
  object, and keyword arguments.\<close>

definition dave_a :: User where
  "dave_a = (new_user proto_a ''https://inst.example/dave'')
     \<lparr> obj_key := Some ''https://inst.example/gone'', direct := Some True,
       enabled_protocols := [''atproto''] \<rparr>"

definition dave_profile :: Object where
  "dave_profile = (new_object ''https://inst.example/dave'')
     \<lparr> our_as1 := JDict [(''displayName'', JStr ''Dave'')] \<rparr>"

definition no_user_kwargs :: user_kwargs where
  "no_user_kwargs = \<lparr> kw_direct = None, kw_obj = None, kw_obj_key = None,
     kw_enabled_protocols = None \<rparr>"

text \<open>Resolving copies: the state of a process that has resolved nothing yet, a copy of
  the first sample user and one of her note, and the state after a first resolution of
  each copy's URI, run before the copy exists.\<close>

definition no_caches :: resolver_state where
  "no_caches = \<lparr> memcache = [], lru_object = [], lru_user = [], queries = 0 \<rparr>"

definition alice_copy :: Target where
  "alice_copy = \<lparr> uri = ''did:plc:alice'', protocol = ''atproto'' \<rparr>"

definition note_copy :: Target where
  "note_copy = \<lparr> uri = ''at://did:plc:alice/app.bsky.feed.post/1'', protocol = ''atproto'' \<rparr>"

definition after_user_miss :: resolver_state where
  "after_user_miss = snd (get_original_user_key plain_env [alice_a] (uri alice_copy) no_caches)"

definition after_object_miss :: resolver_state where
  "after_object_miss = snd (get_original_object_key [alice_note] (uri note_copy) no_caches)"












section \<open>Properties of \<open>get_copy\<close>\<close>

lemma first_copy_None: "(first_copy p cs = None) = (\<forall>c \<in> set cs. \<not> copy_matches p c)"
  by (induction cs) (auto simp: copy_matches_def)

lemma first_copy_Some:
  "(first_copy p cs = Some x) =
     (\<exists>i < length cs. copy_matches p (cs ! i) \<and> uri (cs ! i) = x
        \<and> (\<forall>j < i. \<not> copy_matches p (cs ! j)))"
proof (induction cs)
  case Nil
  then show ?case by simp
next
  case (Cons c cs)
  show ?case
  proof (cases "copy_matches p c")
    case True
    then have "first_copy p (c # cs) = Some (uri c)"
      by (simp add: copy_matches_def)
    moreover have "(\<exists>i < length (c # cs). copy_matches p ((c # cs) ! i) \<and> uri ((c # cs) ! i) = x
        \<and> (\<forall>j < i. \<not> copy_matches p ((c # cs) ! j))) = (uri c = x)"
    proof
      assume "\<exists>i < length (c # cs). copy_matches p ((c # cs) ! i) \<and> uri ((c # cs) ! i) = x
        \<and> (\<forall>j < i. \<not> copy_matches p ((c # cs) ! j))"
      then obtain i where i: "copy_matches p ((c # cs) ! i)" "uri ((c # cs) ! i) = x"
        "\<forall>j < i. \<not> copy_matches p ((c # cs) ! j)" by blast
      have "i = 0"
      proof (rule ccontr)
        assume "i \<noteq> 0"
        then have "0 < i" by simp
        with i(3) have "\<not> copy_matches p ((c # cs) ! 0)" by blast
        with True show False by simp
      qed
      with i(2) show "uri c = x" by simp
    next
      assume "uri c = x"
      with True show "\<exists>i < length (c # cs). copy_matches p ((c # cs) ! i) \<and> uri ((c # cs) ! i) = x
        \<and> (\<forall>j < i. \<not> copy_matches p ((c # cs) ! j))"
        by (intro exI[of _ 0]) simp
    qed
    ultimately show ?thesis by auto
  next
    case False
    then have eq: "first_copy p (c # cs) = first_copy p cs"
      by (simp add: copy_matches_def)
    have "(\<exists>i < length (c # cs). copy_matches p ((c # cs) ! i) \<and> uri ((c # cs) ! i) = x
        \<and> (\<forall>j < i. \<not> copy_matches p ((c # cs) ! j)))
      = (\<exists>i < length cs. copy_matches p (cs ! i) \<and> uri (cs ! i) = x
        \<and> (\<forall>j < i. \<not> copy_matches p (cs ! j)))" (is "?L = ?R")
    proof
      assume ?L
      then obtain i where i: "i < length (c # cs)" "copy_matches p ((c # cs) ! i)"
        "uri ((c # cs) ! i) = x" "\<forall>j < i. \<not> copy_matches p ((c # cs) ! j)" by blast
      from i(2) False obtain k where k: "i = Suc k" by (cases i) auto
      have "\<forall>j < k. \<not> copy_matches p (cs ! j)"
      proof (intro allI impI)
        fix j assume "j < k"
        then have "Suc j < i" using k by simp
        with i(4) have "\<not> copy_matches p ((c # cs) ! Suc j)" by blast
        then show "\<not> copy_matches p (cs ! j)" by simp
      qed
      with i k show ?R by (intro exI[of _ k]) simp
    next
      assume ?R
      then obtain k where k: "k < length cs" "copy_matches p (cs ! k)" "uri (cs ! k) = x"
        "\<forall>j < k. \<not> copy_matches p (cs ! j)" by blast
      have "\<forall>j < Suc k. \<not> copy_matches p ((c # cs) ! j)"
      proof (intro allI impI)
        fix j assume "j < Suc k"
        then show "\<not> copy_matches p ((c # cs) ! j)"
          using False k(4) by (cases j) auto
      qed
      with k show ?L by (intro exI[of _ "Suc k"]) simp
    qed
    with eq Cons.IH show ?thesis by simp
  qed
qed

text \<open>
  C10.  \<open>get_copy\<close> asked for the entity's own protocol (a user's class, by its label; an
  object's \<open>source_protocol\<close>, by label or abbreviation) returns the entity's key id,
  whatever \<open>copies\<close> holds.  Asked for any other protocol it returns the uri of the first
  Target of \<open>copies\<close> that matches the protocol's label or abbreviation (no earlier Target
  matches), and nothing when no Target matches.
\<close>

theorem get_copy_native_or_first_copy:
  "(LABEL (cls u) = LABEL p \<longrightarrow> get_copy u p = Some (key_id u))
   \<and> (LABEL (cls u) \<noteq> LABEL p \<longrightarrow>
        (case get_copy u p of
           None \<Rightarrow> \<forall>c \<in> set (copies u). \<not> copy_matches p c
         | Some x \<Rightarrow> \<exists>i < length (copies u). copy_matches p (copies u ! i)
               \<and> uri (copies u ! i) = x \<and> (\<forall>j < i. \<not> copy_matches p (copies u ! j))))
   \<and> (source_protocol ob = Some (LABEL p) \<or> source_protocol ob = ABBREV p \<longrightarrow>
        object_get_copy ob p = Some (object_id ob))
   \<and> (source_protocol ob \<noteq> Some (LABEL p) \<and> source_protocol ob \<noteq> ABBREV p \<longrightarrow>
        (case object_get_copy ob p of
           None \<Rightarrow> \<forall>c \<in> set (object_copies ob). \<not> copy_matches p c
         | Some x \<Rightarrow> \<exists>i < length (object_copies ob). copy_matches p (object_copies ob ! i)
               \<and> uri (object_copies ob ! i) = x
               \<and> (\<forall>j < i. \<not> copy_matches p (object_copies ob ! j))))"
proof (intro conjI impI)
  assume "LABEL (cls u) = LABEL p"
  then show "get_copy u p = Some (key_id u)" by (simp add: get_copy_def)
next
  assume "LABEL (cls u) \<noteq> LABEL p"
  then have eq: "get_copy u p = first_copy p (copies u)" by (simp add: get_copy_def)
  show "case get_copy u p of
           None \<Rightarrow> \<forall>c \<in> set (copies u). \<not> copy_matches p c
         | Some x \<Rightarrow> \<exists>i < length (copies u). copy_matches p (copies u ! i)
               \<and> uri (copies u ! i) = x \<and> (\<forall>j < i. \<not> copy_matches p (copies u ! j))"
  proof (cases "first_copy p (copies u)")
    case None
    then show ?thesis using eq first_copy_None[of p "copies u"] by simp
  next
    case (Some x)
    then show ?thesis using eq first_copy_Some[of p "copies u" x] by simp
  qed
next
  assume "source_protocol ob = Some (LABEL p) \<or> source_protocol ob = ABBREV p"
  then show "object_get_copy ob p = Some (object_id ob)"
    by (auto simp: object_get_copy_def)
next
  assume "source_protocol ob \<noteq> Some (LABEL p) \<and> source_protocol ob \<noteq> ABBREV p"
  then have eq: "object_get_copy ob p = first_copy p (object_copies ob)"
    by (simp add: object_get_copy_def)
  show "case object_get_copy ob p of
           None \<Rightarrow> \<forall>c \<in> set (object_copies ob). \<not> copy_matches p c
         | Some x \<Rightarrow> \<exists>i < length (object_copies ob). copy_matches p (object_copies ob ! i)
               \<and> uri (object_copies ob ! i) = x
               \<and> (\<forall>j < i. \<not> copy_matches p (object_copies ob ! j))"
  proof (cases "first_copy p (object_copies ob)")
    case None
    then show ?thesis using eq first_copy_None[of p "object_copies ob"] by simp
  next
    case (Some x)
    then show ?thesis using eq first_copy_Some[of p "object_copies ob" x] by simp
  qed
qed

text \<open>Witness: a user of the first protocol with two copies that match the second one
  (its own id for its own protocol, the first copy for the other), and a note native to the
  second protocol (its own id there, its copy for the first).\<close>

theorem get_copy_native_or_first_copy_witness:
  "LABEL (cls bob_a) = LABEL proto_a \<and> get_copy bob_a proto_a = Some ''https://inst.example/bob''
   \<and> LABEL (cls bob_a) \<noteq> LABEL proto_b \<and> get_copy bob_a proto_b = Some ''did:plc:bob''
   \<and> source_protocol note_b = ABBREV proto_b
   \<and> object_get_copy note_b proto_b = Some ''at://did:plc:bob/app.bsky.feed.post/1''
   \<and> source_protocol note_b \<noteq> Some (LABEL proto_a) \<and> source_protocol note_b \<noteq> ABBREV proto_a
   \<and> object_get_copy note_b proto_a = Some ''https://inst.example/notes/1''"
  using get_copy_native_or_first_copy[of bob_a proto_a note_b]
    get_copy_native_or_first_copy[of bob_a proto_b note_b]
  by (simp add: bob_a_def note_b_def proto_a_def proto_b_def new_user_def new_object_def
      get_copy_def object_get_copy_def)

section \<open>Properties of \<open>User.status\<close>\<close>

lemma py_in_iterable: "iterable j \<Longrightarrow> \<exists>b. py_in s j = Inr b"
  by (cases j) auto

lemma marker_check_iterable: "iterable name \<Longrightarrow> \<exists>b. marker_check m s name = Inr b"
  using py_in_iterable[of name m] by (auto simp: marker_check_def)

lemma marker_check_True:
  "(marker_check m (html_to_text l (dict_get_default prof ''summary'' (JStr '''')))
      (dict_get_default prof ''displayName'' (JStr '''')) = Inr True) = has_marker l m prof"
  by (auto simp: marker_check_def has_marker_def)

text \<open>With a non-empty profile loaded and no manual opt-out, \<open>status\<close> is the tail of the
  chain of checks.\<close>

lemma status_dict:
  assumes "manual_opt_out u \<noteq> Some True" "user_obj objs u = Some ob" "as1 l ob = JDict prof"
    "prof \<noteq> []"
  shows "status l objs u =
     (if spam_blocked l u prof then Inr (Some ''blocked'')
      else case marker_check ''#nobridge''
                  (html_to_text l (dict_get_default prof ''summary'' (JStr '''')))
                  (dict_get_default prof ''displayName'' (JStr '''')) of
             Inl e \<Rightarrow> Inl e
           | Inr True \<Rightarrow> Inr (Some ''opt-out'')
           | Inr False \<Rightarrow>
               if enabled_protocols u \<noteq> [] then Inr None
               else if \<not> is_public l (JDict prof) then Inr (Some ''opt-out'')
               else (case marker_check ''#nobot''
                            (html_to_text l (dict_get_default prof ''summary'' (JStr '''')))
                            (dict_get_default prof ''displayName'' (JStr '''')) of
                       Inl e \<Rightarrow> Inl e
                     | Inr True \<Rightarrow> Inr (Some ''opt-out'')
                     | Inr False \<Rightarrow> Inr None))"
  using assms
  by (auto simp: status_def spam_blocked_def Let_def)

lemma profile_of_nonempty:
  assumes "profile_of l objs u \<noteq> []"
  obtains ob where "user_obj objs u = Some ob" "as1 l ob = JDict (profile_of l objs u)"
  using assms by (auto simp: profile_of_def split: option.splits json.splits)

lemma status_no_profile:
  assumes "manual_opt_out u \<noteq> Some True" "profile_of l objs u = []"
    "profile_well_typed l objs u"
  shows "status l objs u = Inr None"
  using assms
  by (auto simp: status_def profile_of_def profile_well_typed_def
      split: json.splits option.splits)

lemma status_refines_documented:
  assumes wt: "profile_well_typed l objs u"
  shows "status l objs u = Inr (status_documented l objs u)"
proof (cases "manual_opt_out u = Some True")
  case True
  then show ?thesis by (simp add: status_def status_documented_def)
next
  case manual: False
  show ?thesis
  proof (cases "profile_of l objs u = []")
    case True
    with manual wt show ?thesis
      by (simp add: status_no_profile status_documented_def)
  next
    case False
    define prof where "prof = profile_of l objs u"
    from False obtain ob where ob: "user_obj objs u = Some ob" "as1 l ob = JDict prof"
      unfolding prof_def by (rule profile_of_nonempty)
    have ne: "prof \<noteq> []" using False by (simp add: prof_def)
    from wt ob have it: "iterable (dict_get_default prof ''displayName'' (JStr ''''))"
      by (simp add: profile_well_typed_def)
    from marker_check_iterable[OF it] obtain b1 where
      b1: "marker_check ''#nobridge''
             (html_to_text l (dict_get_default prof ''summary'' (JStr '''')))
             (dict_get_default prof ''displayName'' (JStr '''')) = Inr b1"
      by blast
    from marker_check_iterable[OF it] obtain b2 where
      b2: "marker_check ''#nobot''
             (html_to_text l (dict_get_default prof ''summary'' (JStr '''')))
             (dict_get_default prof ''displayName'' (JStr '''')) = Inr b2"
      by blast
    have m1: "has_marker l ''#nobridge'' prof = b1"
      using b1 marker_check_True[of "''#nobridge''" l prof] by simp
    have m2: "has_marker l ''#nobot'' prof = b2"
      using b2 marker_check_True[of "''#nobot''" l prof] by simp
    show ?thesis
      unfolding status_dict[OF manual ob ne] status_documented_def prof_def[symmetric] Let_def
      using manual ne by (simp add: m1 m2 b1 b2)
  qed
qed

lemma status_nobridge:
  assumes ne: "profile_of l objs u \<noteq> []"
    and marked: "has_marker l ''#nobridge'' (profile_of l objs u)"
    and pass: "\<not> spam_blocked l u (profile_of l objs u)"
  shows "status l objs u = Inr (Some ''opt-out'')"
proof (cases "manual_opt_out u = Some True")
  case True
  then show ?thesis by (simp add: status_def)
next
  case manual: False
  from ne obtain ob where ob: "user_obj objs u = Some ob"
    "as1 l ob = JDict (profile_of l objs u)"
    by (rule profile_of_nonempty)
  from marked have "marker_check ''#nobridge''
      (html_to_text l (dict_get_default (profile_of l objs u) ''summary'' (JStr '''')))
      (dict_get_default (profile_of l objs u) ''displayName'' (JStr '''')) = Inr True"
    by (simp add: marker_check_True)
  with pass show ?thesis
    unfolding status_dict[OF manual ob ne] by simp
qed

lemma status_blocked_first:
  assumes "manual_opt_out u \<noteq> Some True" and ne: "profile_of l objs u \<noteq> []"
    and "spam_blocked l u (profile_of l objs u)"
  shows "status l objs u = Inr (Some ''blocked'')"
proof -
  from ne obtain ob where ob: "user_obj objs u = Some ob"
    "as1 l ob = JDict (profile_of l objs u)"
    by (rule profile_of_nonempty)
  from assms(3) show ?thesis
    unfolding status_dict[OF assms(1) ob ne] by simp
qed

text \<open>
  C1 (as amended).  \<open>status\<close> is computed in the documented precedence order: on every
  well-typed profile it is the first matching rule of the documented list.  In
  particular a user whose loaded profile carries \<open>#nobridge\<close> in the text of its summary
  or in its display name, and whom the avatar, name and account-age checks do not block,
  has status \<open>'opt-out'\<close>, whatever \<open>enabled_protocols\<close> holds.  Those three checks come
  before the marker: a user they block (and who is not manually opted out) has status
  \<open>'blocked'\<close>, marker or not.
\<close>

theorem status_precedence:
  "(profile_well_typed l objs u \<longrightarrow> status l objs u = Inr (status_documented l objs u))
   \<and> (profile_of l objs u \<noteq> [] \<and> has_marker l ''#nobridge'' (profile_of l objs u)
        \<and> \<not> spam_blocked l u (profile_of l objs u)
      \<longrightarrow> status l objs u = Inr (Some ''opt-out''))
   \<and> (manual_opt_out u \<noteq> Some True \<and> profile_of l objs u \<noteq> []
        \<and> spam_blocked l u (profile_of l objs u)
      \<longrightarrow> status l objs u = Inr (Some ''blocked''))"
  using status_refines_documented[of l objs u] status_nobridge[of l objs u]
    status_blocked_first[of u l objs]
  by blast

lemma nobridge_profile_as1:
  "as1 plain_env nobridge_profile =
     JDict [(''displayName'', JStr ''Alice''), (''summary'', JStr ''hi! #nobridge please''),
            (''id'', JStr ''https://inst.example/alice'')]"
  by (simp add: as1_def as1_of_def str_set_def nobridge_profile_def new_object_def setdefault_id_def)

lemma nobridge_profile_id: "object_id nobridge_profile = ''https://inst.example/alice''"
  by (simp add: nobridge_profile_def new_object_def)

lemma alice_profile_of:
  "profile_of plain_env [nobridge_profile] alice_a =
     [(''displayName'', JStr ''Alice''), (''summary'', JStr ''hi! #nobridge please''),
      (''id'', JStr ''https://inst.example/alice'')]"
  "profile_of plain_env [nobridge_profile] alice_b =
     [(''displayName'', JStr ''Alice''), (''summary'', JStr ''hi! #nobridge please''),
      (''id'', JStr ''https://inst.example/alice'')]"
  by (simp_all add: profile_of_def user_obj_def obj_of_def get_object_by_id_def alice_a_def alice_b_def
      new_user_def nobridge_profile_as1 nobridge_profile_id)

lemma alice_marked:
  "has_marker plain_env ''#nobridge''
     [(''displayName'', JStr ''Alice''), (''summary'', JStr ''hi! #nobridge please''),
      (''id'', JStr ''https://inst.example/alice'')]"
  by (simp add: has_marker_def dict_get_default_def plain_env_def)

text \<open>Witness: the marked profile's owner on the protocol without gates, opted in to the
  other protocol, is opted out; on the protocol that requires an avatar the same profile
  is blocked.\<close>

theorem status_precedence_witness:
  "profile_well_typed plain_env [nobridge_profile] alice_a
   \<and> status plain_env [nobridge_profile] alice_a
       = Inr (status_documented plain_env [nobridge_profile] alice_a)
   \<and> has_marker plain_env ''#nobridge'' (profile_of plain_env [nobridge_profile] alice_a)
   \<and> \<not> spam_blocked plain_env alice_a (profile_of plain_env [nobridge_profile] alice_a)
   \<and> enabled_protocols alice_a = [''atproto'']
   \<and> status plain_env [nobridge_profile] alice_a = Inr (Some ''opt-out'')
   \<and> spam_blocked plain_env alice_b (profile_of plain_env [nobridge_profile] alice_b)
   \<and> status plain_env [nobridge_profile] alice_b = Inr (Some ''blocked'')"
proof -
  have wt: "profile_well_typed plain_env [nobridge_profile] alice_a"
    by (simp add: profile_well_typed_def user_obj_def obj_of_def get_object_by_id_def alice_a_def
        new_user_def nobridge_profile_as1 nobridge_profile_id dict_get_default_def)
  have pass: "\<not> spam_blocked plain_env alice_a (profile_of plain_env [nobridge_profile] alice_a)"
    unfolding alice_profile_of
    by (simp add: spam_blocked_def alice_a_def new_user_def proto_a_def)
  have blocked: "spam_blocked plain_env alice_b (profile_of plain_env [nobridge_profile] alice_b)"
    unfolding alice_profile_of
    by (simp add: spam_blocked_def dict_get_def alice_b_def new_user_def proto_b_def)
  have manual: "manual_opt_out alice_b \<noteq> Some True"
    by (simp add: alice_b_def new_user_def)
  have en: "enabled_protocols alice_a = [''atproto'']"
    by (simp add: alice_a_def new_user_def)
  have ne: "profile_of plain_env [nobridge_profile] alice_a \<noteq> []"
    "profile_of plain_env [nobridge_profile] alice_b \<noteq> []"
    unfolding alice_profile_of by simp_all
  have marked: "has_marker plain_env ''#nobridge''
      (profile_of plain_env [nobridge_profile] alice_a)"
    unfolding alice_profile_of by (rule alice_marked)
  note a = status_precedence[of plain_env "[nobridge_profile]" alice_a]
  note b = status_precedence[of plain_env "[nobridge_profile]" alice_b]
  from a wt have r1: "status plain_env [nobridge_profile] alice_a
       = Inr (status_documented plain_env [nobridge_profile] alice_a)"
    by blast
  from a ne(1) marked pass
  have r2: "status plain_env [nobridge_profile] alice_a = Inr (Some ''opt-out'')"
    by blast
  from b manual ne(2) blocked
  have r3: "status plain_env [nobridge_profile] alice_b = Inr (Some ''blocked'')"
    by blast
  from wt r1 marked pass en r2 blocked r3 show ?thesis
    by blast
qed

text \<open>Counterexample to the claim as stated: a user whose bio carries \<open>#nobridge\<close> and who
  has opted in, on a protocol that requires an avatar, without one: the status is
  \<open>'blocked'\<close>, not \<open>'opt-out'\<close>.\<close>

theorem status_nobridge_counterexample:
  "has_marker plain_env ''#nobridge'' (profile_of plain_env [nobridge_profile] alice_b)
   \<and> enabled_protocols alice_b = [''activitypub'']
   \<and> status plain_env [nobridge_profile] alice_b = Inr (Some ''blocked'')"
proof -
  have "status plain_env [nobridge_profile] alice_b = Inr (Some ''blocked'')"
    by (simp add: status_def user_obj_def obj_of_def get_object_by_id_def alice_b_def new_user_def
        nobridge_profile_as1 nobridge_profile_id proto_b_def dict_get_def)
  moreover have "enabled_protocols alice_b = [''activitypub'']"
    by (simp add: alice_b_def new_user_def)
  ultimately show ?thesis
    using alice_marked by (simp add: alice_profile_of)
qed

section \<open>Properties of \<open>Follower\<close>\<close>

lemma apply_kwargs_keys:
  "apply_kwargs kw f = Inr g \<Longrightarrow> follower_from g = follower_from f \<and> follower_to g = follower_to f"
  by (auto simp: apply_kwargs_def Let_def split: option.splits if_splits)

lemma find_follower_Some:
  "find_follower st a b = Some i \<Longrightarrow> i < length st"
  by (induction st arbitrary: i) (auto split: if_splits)

lemma pre_put_hook_cross: "follower_pre_put_hook f = Inr x \<Longrightarrow> cross_protocol f"
  by (simp add: follower_pre_put_hook_def cross_protocol_def split: if_splits)

lemma pre_put_hook_same:
  "key_kind (follower_from f) = key_kind (follower_to f)
     \<Longrightarrow> follower_pre_put_hook f = Inl AssertionError"
  by (simp add: follower_pre_put_hook_def)

lemma cross_protocol_updated [simp]:
  "cross_protocol (f\<lparr>follower_updated := n\<rparr>) = cross_protocol f"
  by (simp add: cross_protocol_def)

text \<open>One call keeps the invariant of the store.\<close>

lemma get_or_create_keeps_cross:
  assumes call: "follower_get_or_create now st fu tu kw = (r, st')"
    and inv: "\<forall>f \<in> set st. cross_protocol f"
  shows "\<forall>f \<in> set st'. cross_protocol f"
proof (cases fu)
  case None
  with call inv show ?thesis by (simp add: follower_get_or_create_def)
next
  case fu: (Some a)
  show ?thesis
  proof (cases tu)
    case None
    with call inv fu show ?thesis by (simp add: follower_get_or_create_def)
  next
    case tu: (Some b)
    show ?thesis
    proof (cases "find_follower st (user_key_of a) (user_key_of b)")
      case None
      with call inv fu tu show ?thesis
        by (auto simp: follower_get_or_create_def split: sum.splits dest: pre_put_hook_cross)
    next
      case (Some i)
      then have i: "i < length st" by (rule find_follower_Some)
      show ?thesis
      proof (cases "kwargs_empty kw")
        case True
        with call inv fu tu Some show ?thesis by (simp add: follower_get_or_create_def)
      next
        case False
        show ?thesis
        proof (cases "apply_kwargs kw (st ! i)")
          case (Inl e)
          with call inv fu tu Some False show ?thesis
            by (simp add: follower_get_or_create_def)
        next
          case (Inr f)
          show ?thesis
          proof (cases "follower_pre_put_hook f")
            case (Inl e)
            with call inv fu tu Some False Inr show ?thesis
              by (simp add: follower_get_or_create_def)
          next
            case hook: (Inr x)
            then have "cross_protocol f" by (rule pre_put_hook_cross)
            moreover from call fu tu Some False Inr hook
            have "st' = st[i := f\<lparr>follower_updated := now\<rparr>]"
              by (simp add: follower_get_or_create_def)
            ultimately show ?thesis
              using inv set_update_subset_insert[of st i "f\<lparr>follower_updated := now\<rparr>"]
              by auto
          qed
        qed
      qed
    qed
  qed
qed

lemma reachable_cross:
  "reachable_followers st \<Longrightarrow> \<forall>f \<in> set st. cross_protocol f"
proof (induction rule: reachable_followers.induct)
  case empty
  then show ?case by simp
next
  case (step st now fu tu kw r st')
  then show ?case using get_or_create_keeps_cross by blast
qed

text \<open>A call that writes (a new edge, or an existing edge with keyword arguments) an edge
  between two users of one kind fails and leaves the store alone.\<close>

lemma same_kind_commit_fails:
  assumes same: "kind_name (cls a) = kind_name (cls b)"
    and writes: "find_follower st (user_key_of a) (user_key_of b) = None \<or> \<not> kwargs_empty kw"
  shows "\<exists>e. follower_get_or_create now st (Some a) (Some b) kw = (Inl e, st)"
proof (cases "find_follower st (user_key_of a) (user_key_of b)")
  case None
  show ?thesis
  proof (cases "apply_kwargs kw \<lparr> follower_from = user_key_of a, follower_to = user_key_of b,
      follow = None, follower_status = Some ''active'', follower_created = now,
      follower_updated = now \<rparr>")
    case (Inl e)
    with None show ?thesis by (simp add: follower_get_or_create_def)
  next
    case (Inr f)
    from apply_kwargs_keys[OF Inr] same
    have "key_kind (follower_from f) = key_kind (follower_to f)"
      by (simp add: key_kind_def user_key_of_def)
    then have "follower_pre_put_hook f = Inl AssertionError" by (rule pre_put_hook_same)
    with None Inr show ?thesis by (simp add: follower_get_or_create_def)
  qed
next
  case (Some i)
  with writes have kw: "\<not> kwargs_empty kw" by simp
  have found: "follower_from (st ! i) = user_key_of a \<and> follower_to (st ! i) = user_key_of b"
    using Some
  proof (induction st arbitrary: i)
    case Nil
    then show ?case by simp
  next
    case (Cons f fs)
    then show ?case by (auto split: if_splits)
  qed
  show ?thesis
  proof (cases "apply_kwargs kw (st ! i)")
    case (Inl e)
    with Some kw show ?thesis by (simp add: follower_get_or_create_def)
  next
    case (Inr f)
    from apply_kwargs_keys[OF Inr] found same
    have "key_kind (follower_from f) = key_kind (follower_to f)"
      by (simp add: key_kind_def user_key_of_def)
    then have "follower_pre_put_hook f = Inl AssertionError" by (rule pre_put_hook_same)
    with Some kw Inr show ?thesis by (simp add: follower_get_or_create_def)
  qed
qed

text \<open>
  C3.  Every store that calls of \<open>Follower.get_or_create\<close> build from the empty store holds
  only edges whose two users are of different kinds (protocols); each call keeps that
  invariant; and a call that would write an edge between two users of one protocol (a new
  edge, or an update of a stored one) raises and leaves the store as it was.
\<close>

theorem follower_cross_protocol:
  "(reachable_followers st \<longrightarrow> (\<forall>f \<in> set st. cross_protocol f))
   \<and> (follower_get_or_create now st fu tu kw = (r, st') \<and> (\<forall>f \<in> set st. cross_protocol f)
        \<longrightarrow> (\<forall>f \<in> set st'. cross_protocol f))
   \<and> (kind_name (cls a) = kind_name (cls b)
        \<and> (find_follower st (user_key_of a) (user_key_of b) = None \<or> \<not> kwargs_empty kw)
        \<longrightarrow> (\<exists>e. follower_get_or_create now st (Some a) (Some b) kw = (Inl e, st)))"
  using reachable_cross[of st] get_or_create_keeps_cross[of now st fu tu kw r st']
    same_kind_commit_fails[of a b st kw now]
  by blast

lemma bob_follows_carol_created:
  "follower_get_or_create 1 [] (Some bob_a) (Some carol_b) no_kwargs
     = (Inr bob_follows_carol, [bob_follows_carol])"
  by (simp add: follower_get_or_create_def apply_kwargs_def no_kwargs_def
      follower_pre_put_hook_def key_kind_def user_key_of_def bob_a_def carol_b_def
      new_user_def proto_a_def proto_b_def bob_follows_carol_def)

text \<open>Witness: the first follow between users of the two sample protocols is stored, the
  store it gives is reachable and cross-protocol; a follow between two users of the first
  protocol raises.\<close>

theorem follower_cross_protocol_witness:
  "reachable_followers [bob_follows_carol]
   \<and> cross_protocol bob_follows_carol
   \<and> follower_get_or_create 1 [] (Some bob_a) (Some carol_b) no_kwargs
       = (Inr bob_follows_carol, [bob_follows_carol])
   \<and> kind_name (cls bob_a) = kind_name (cls alice_a)
   \<and> follower_get_or_create 1 [] (Some bob_a) (Some alice_a) no_kwargs
       = (Inl AssertionError, [])"
proof -
  have r: "reachable_followers [bob_follows_carol]"
    using reachable_followers.step[OF reachable_followers.empty bob_follows_carol_created] .
  have same: "kind_name (cls bob_a) = kind_name (cls alice_a)"
    by (simp add: bob_a_def alice_a_def new_user_def)
  have none: "find_follower [] (user_key_of bob_a) (user_key_of alice_a) = None"
    by simp
  note t1 = follower_cross_protocol[of "[bob_follows_carol]" 1 None None no_kwargs
      "Inl AssertionError" "[bob_follows_carol]" bob_a alice_a]
  note t2 = follower_cross_protocol[of "[]" 1 "Some bob_a" "Some carol_b" no_kwargs
      "Inr bob_follows_carol" "[bob_follows_carol]" bob_a alice_a]
  from t1 r have c: "cross_protocol bob_follows_carol" by simp
  from t2 bob_follows_carol_created have "\<forall>f \<in> set [bob_follows_carol]. cross_protocol f"
    by simp
  from t2 same none obtain e where
    e: "follower_get_or_create 1 [] (Some bob_a) (Some alice_a) no_kwargs = (Inl e, [])"
    by auto
  have "follower_get_or_create 1 [] (Some bob_a) (Some alice_a) no_kwargs
      = (Inl AssertionError, [])"
    by (simp add: follower_get_or_create_def apply_kwargs_def no_kwargs_def
        follower_pre_put_hook_def key_kind_def user_key_of_def bob_a_def alice_a_def
        new_user_def proto_a_def)
  with r c same bob_follows_carol_created show ?thesis by simp
qed

section \<open>Properties of \<open>fetch_page\<close>\<close>

lemma sorted_neg_descending:
  assumes "sorted (map (\<lambda>r. - f r) page)"
  shows "descending_by f page"
  unfolding descending_by_def
proof (intro allI impI)
  fix j i assume j: "j < length page" and i: "i < j"
  from assms i j have "map (\<lambda>r. - f r) page ! i \<le> map (\<lambda>r. - f r) page ! j"
    by (simp add: sorted_iff_nth_mono)
  with i j show "f (page ! j) \<le> f (page ! i)" by simp
qed

lemma page_of_sorted_take: "page_of (sorted_updated_desc (take PAGE_SIZE m)) m"
  by (simp add: page_of_def sorted_updated_desc_def sorted_neg_descending)

lemma order_asc_props:
  "mset (order_asc by_p q) = mset q \<and> sorted (map (by_value by_p) (order_asc by_p q))"
  by (simp add: order_asc_def)

lemma order_desc_props:
  "mset (order_desc by_p q) = mset q \<and> descending_by (by_value by_p) (order_desc by_p q)"
  by (simp add: order_desc_def sorted_neg_descending)

lemma page_subset: "page_of page m \<Longrightarrow> set page \<subseteq> set m"
proof -
  assume "page_of page m"
  then have "set_mset (mset page) = set_mset (mset (take PAGE_SIZE m))"
    by (simp add: page_of_def)
  then have "set page = set (take PAGE_SIZE m)" by simp
  then show ?thesis using set_take_subset[of PAGE_SIZE m] by simp
qed

lemma fetch_page_both:
  assumes "get_paging_param l bp = Inr (Some tb)" "get_paging_param l ap = Inr (Some ta)"
  shows "fetch_page l q (Some by_p) bp ap = Inl (HTTPError 400)"
  using assms by (simp add: fetch_page_def)

lemma fetch_page_after:
  assumes "get_paging_param l bp = Inr None" "get_paging_param l ap = Inr (Some ta)"
  shows "\<exists>na. fetch_page l q (Some by_p) bp ap =
      Inr (sorted_updated_desc
             (take PAGE_SIZE (order_asc by_p (filter (\<lambda>r. ta \<le> by_value by_p r) q))),
           Some ta, na)"
  using assms by (simp add: fetch_page_def Let_def)

lemma fetch_page_before:
  assumes "get_paging_param l bp = Inr (Some tb)" "get_paging_param l ap = Inr None"
  shows "\<exists>nb. fetch_page l q (Some by_p) bp ap =
      Inr (sorted_updated_desc
             (take PAGE_SIZE (order_desc by_p (filter (\<lambda>r. by_value by_p r < tb) q))),
           nb, Some tb)"
  using assms by (simp add: fetch_page_def Let_def)

lemma fetch_page_neither:
  assumes "get_paging_param l bp = Inr None" "get_paging_param l ap = Inr None"
  shows "\<exists>nb. fetch_page l q (Some by_p) bp ap =
      Inr (sorted_updated_desc (take PAGE_SIZE (order_desc by_p q)), nb, None)"
  using assms by (simp add: fetch_page_def Let_def)

text \<open>
  C8 (as amended).  With both cursors \<open>fetch_page\<close> raises a request error (status 400).
  With \<open>after\<close> alone it returns a page of the entities whose ordering property is at
  least \<open>after\<close>, queried in ascending order; with \<open>before\<close> alone a page of those whose
  ordering property is less than \<open>before\<close>, queried in descending order; with neither a
  page of the whole query in descending order.  A page is the first \<open>PAGE_SIZE = 20\<close>
  results of the ordered query, at most 20 entities, re-sorted by their \<open>updated\<close>
  timestamp, latest first (whatever the ordering property is).
\<close>

theorem fetch_page_pages:
  "(get_paging_param l bp = Inr (Some tb) \<and> get_paging_param l ap = Inr (Some ta)
      \<longrightarrow> fetch_page l q (Some by_p) bp ap = Inl (HTTPError 400))
   \<and> (get_paging_param l bp = Inr None \<and> get_paging_param l ap = Inr (Some ta)
      \<longrightarrow> (\<exists>page nb na. fetch_page l q (Some by_p) bp ap = Inr (page, nb, na)
            \<and> page_of page (order_asc by_p (filter (\<lambda>r. ta \<le> by_value by_p r) q))
            \<and> (\<forall>r \<in> set page. ta \<le> by_value by_p r)))
   \<and> (get_paging_param l bp = Inr (Some tb) \<and> get_paging_param l ap = Inr None
      \<longrightarrow> (\<exists>page nb na. fetch_page l q (Some by_p) bp ap = Inr (page, nb, na)
            \<and> page_of page (order_desc by_p (filter (\<lambda>r. by_value by_p r < tb) q))
            \<and> (\<forall>r \<in> set page. by_value by_p r < tb)))
   \<and> (get_paging_param l bp = Inr None \<and> get_paging_param l ap = Inr None
      \<longrightarrow> (\<exists>page nb na. fetch_page l q (Some by_p) bp ap = Inr (page, nb, na)
            \<and> page_of page (order_desc by_p q)))
   \<and> PAGE_SIZE = 20
   \<and> mset (order_asc by_p q) = mset q \<and> sorted (map (by_value by_p) (order_asc by_p q))
   \<and> mset (order_desc by_p q) = mset q \<and> descending_by (by_value by_p) (order_desc by_p q)"
proof (intro conjI impI)
  assume "get_paging_param l bp = Inr (Some tb) \<and> get_paging_param l ap = Inr (Some ta)"
  then show "fetch_page l q (Some by_p) bp ap = Inl (HTTPError 400)"
    using fetch_page_both by blast
next
  assume a: "get_paging_param l bp = Inr None \<and> get_paging_param l ap = Inr (Some ta)"
  define m where "m = order_asc by_p (filter (\<lambda>r. ta \<le> by_value by_p r) q)"
  from a fetch_page_after[of l bp ap ta q by_p] obtain na where
    r: "fetch_page l q (Some by_p) bp ap = Inr (sorted_updated_desc (take PAGE_SIZE m), Some ta, na)"
    unfolding m_def by blast
  have p: "page_of (sorted_updated_desc (take PAGE_SIZE m)) m" by (rule page_of_sorted_take)
  have "set (sorted_updated_desc (take PAGE_SIZE m)) \<subseteq> set m" using p by (rule page_subset)
  then have "\<forall>r \<in> set (sorted_updated_desc (take PAGE_SIZE m)). ta \<le> by_value by_p r"
    by (auto simp: m_def order_asc_def)
  with r p show "\<exists>page nb na. fetch_page l q (Some by_p) bp ap = Inr (page, nb, na)
      \<and> page_of page (order_asc by_p (filter (\<lambda>r. ta \<le> by_value by_p r) q))
      \<and> (\<forall>r \<in> set page. ta \<le> by_value by_p r)"
    unfolding m_def by blast
next
  assume a: "get_paging_param l bp = Inr (Some tb) \<and> get_paging_param l ap = Inr None"
  define m where "m = order_desc by_p (filter (\<lambda>r. by_value by_p r < tb) q)"
  from a fetch_page_before[of l bp tb ap q by_p] obtain nb where
    r: "fetch_page l q (Some by_p) bp ap = Inr (sorted_updated_desc (take PAGE_SIZE m), nb, Some tb)"
    unfolding m_def by blast
  have p: "page_of (sorted_updated_desc (take PAGE_SIZE m)) m" by (rule page_of_sorted_take)
  have "set (sorted_updated_desc (take PAGE_SIZE m)) \<subseteq> set m" using p by (rule page_subset)
  then have "\<forall>r \<in> set (sorted_updated_desc (take PAGE_SIZE m)). by_value by_p r < tb"
    by (auto simp: m_def order_desc_def)
  with r p show "\<exists>page nb na. fetch_page l q (Some by_p) bp ap = Inr (page, nb, na)
      \<and> page_of page (order_desc by_p (filter (\<lambda>r. by_value by_p r < tb) q))
      \<and> (\<forall>r \<in> set page. by_value by_p r < tb)"
    unfolding m_def by blast
next
  assume a: "get_paging_param l bp = Inr None \<and> get_paging_param l ap = Inr None"
  from a fetch_page_neither[of l bp ap q by_p] obtain nb where
    r: "fetch_page l q (Some by_p) bp ap
        = Inr (sorted_updated_desc (take PAGE_SIZE (order_desc by_p q)), nb, None)"
    by blast
  with page_of_sorted_take[of "order_desc by_p q"]
  show "\<exists>page nb na. fetch_page l q (Some by_p) bp ap = Inr (page, nb, na)
      \<and> page_of page (order_desc by_p q)"
    by blast
next
  show "PAGE_SIZE = 20" by (simp add: PAGE_SIZE_def)
next
  show "mset (order_asc by_p q) = mset q" using order_asc_props by blast
next
  show "sorted (map (by_value by_p) (order_asc by_p q))" using order_asc_props by blast
next
  show "mset (order_desc by_p q) = mset q" using order_desc_props by blast
next
  show "descending_by (by_value by_p) (order_desc by_p q)" using order_desc_props by blast
qed

lemma sample_params:
  "get_paging_param plain_env None = Inr None"
  "get_paging_param plain_env (Some ''2024-01-02'') = Inr (Some 2)"
  "get_paging_param plain_env (Some ''2024-01-04'') = Inr (Some 4)"
  "get_paging_param plain_env (Some ''2024-01-05'') = Inr (Some 5)"
  by (simp_all add: get_paging_param_def plain_env_def)

lemma two_items_pages:
  "fetch_page plain_env two_items (Some ByUpdated) None (Some ''2024-01-04'')
     = Inr ([item ''a'' 1 5], Some 4, None)"
  "fetch_page plain_env two_items (Some ByUpdated) (Some ''2024-01-04'') None
     = Inr ([item ''b'' 2 3], None, Some 4)"
  "fetch_page plain_env two_items (Some ByUpdated) None None
     = Inr ([item ''a'' 1 5, item ''b'' 2 3], None, None)"
  by (simp_all add: fetch_page_def sample_params order_asc_def order_desc_def
      sorted_updated_desc_def two_items_def item_def PAGE_SIZE_def)

text \<open>Witness: two entities, updated at times 5 and 3, paged by \<open>updated\<close>: both cursors
  are refused; \<open>after = 4\<close> gives the first, \<open>before = 4\<close> the second, no cursor both,
  latest first.\<close>

theorem fetch_page_pages_witness:
  "get_paging_param plain_env (Some ''2024-01-04'') = Inr (Some 4)
   \<and> get_paging_param plain_env (Some ''2024-01-02'') = Inr (Some 2)
   \<and> get_paging_param plain_env None = Inr None
   \<and> fetch_page plain_env two_items (Some ByUpdated) (Some ''2024-01-04'') (Some ''2024-01-02'')
       = Inl (HTTPError 400)
   \<and> fetch_page plain_env two_items (Some ByUpdated) None (Some ''2024-01-04'')
       = Inr ([item ''a'' 1 5], Some 4, None)
   \<and> page_of [item ''a'' 1 5]
        (order_asc ByUpdated (filter (\<lambda>r. 4 \<le> by_value ByUpdated r) two_items))
   \<and> fetch_page plain_env two_items (Some ByUpdated) (Some ''2024-01-04'') None
       = Inr ([item ''b'' 2 3], None, Some 4)
   \<and> page_of [item ''b'' 2 3]
        (order_desc ByUpdated (filter (\<lambda>r. by_value ByUpdated r < 4) two_items))
   \<and> fetch_page plain_env two_items (Some ByUpdated) None None
       = Inr ([item ''a'' 1 5, item ''b'' 2 3], None, None)
   \<and> page_of [item ''a'' 1 5, item ''b'' 2 3] (order_desc ByUpdated two_items)"
proof -
  note both = fetch_page_pages[of plain_env "Some ''2024-01-04''" 4 "Some ''2024-01-02''" 2
      two_items ByUpdated]
  note aft = fetch_page_pages[of plain_env None 4 "Some ''2024-01-04''" 4 two_items ByUpdated]
  note bef = fetch_page_pages[of plain_env "Some ''2024-01-04''" 4 None 4 two_items ByUpdated]
  note non = fetch_page_pages[of plain_env None 4 None 4 two_items ByUpdated]
  from both sample_params
  have r1: "fetch_page plain_env two_items (Some ByUpdated) (Some ''2024-01-04'')
      (Some ''2024-01-02'') = Inl (HTTPError 400)"
    by blast
  from aft sample_params two_items_pages(1)
  have r2: "page_of [item ''a'' 1 5]
      (order_asc ByUpdated (filter (\<lambda>r. 4 \<le> by_value ByUpdated r) two_items))"
    by auto
  from bef sample_params two_items_pages(2)
  have r3: "page_of [item ''b'' 2 3]
      (order_desc ByUpdated (filter (\<lambda>r. by_value ByUpdated r < 4) two_items))"
    by auto
  from non sample_params two_items_pages(3)
  have r4: "page_of [item ''a'' 1 5, item ''b'' 2 3] (order_desc ByUpdated two_items)"
    by auto
  from r1 r2 r3 r4 sample_params two_items_pages show ?thesis by blast
qed

text \<open>Counterexample to the claim as stated: paged by \<open>created\<close>, the page is sorted by
  \<open>updated\<close>, so it is not in descending order of the ordering property: the first item
  was created before the second.\<close>

theorem fetch_page_sort_counterexample:
  "fetch_page plain_env two_items (Some ByCreated) None None
     = Inr ([item ''a'' 1 5, item ''b'' 2 3], None, None)
   \<and> by_value ByCreated (item ''a'' 1 5) < by_value ByCreated (item ''b'' 2 3)"
  by (simp add: fetch_page_def sample_params order_desc_def sorted_updated_desc_def
      two_items_def item_def PAGE_SIZE_def)

lemma descending_last_least:
  assumes "descending_by f page" "r \<in> set page"
  shows "f (last page) \<le> f r"
proof -
  from assms(2) obtain i where i: "i < length page" "page ! i = r"
    by (auto simp: in_set_conv_nth)
  then have ne: "page \<noteq> []" by auto
  show ?thesis
  proof (cases "i = length page - 1")
    case True
    with i ne show ?thesis by (simp add: last_conv_nth)
  next
    case False
    with i have "i < length page - 1" by simp
    moreover have "length page - 1 < length page" using ne by simp
    ultimately have "f (page ! (length page - 1)) \<le> f (page ! i)"
      using assms(1) unfolding descending_by_def by blast
    with i ne show ?thesis by (simp add: last_conv_nth)
  qed
qed

text \<open>
  C9 (as amended).  When \<open>fetch_page\<close> is called with an \<open>after\<close> cursor (and no \<open>before\<close>
  cursor) the new \<open>before\<close> cursor it returns is the \<open>after\<close> cursor itself, whether or not
  further pages exist.  Every item of the page has an ordering property at least that
  cursor; so, paging by \<open>updated\<close>, the cursor is the timestamp of the oldest item of the
  page exactly when some item of the page was updated at the cursor.
\<close>

theorem fetch_page_after_new_before:
  "get_paging_param l bp = Inr None \<and> get_paging_param l ap = Inr (Some ta)
   \<longrightarrow> (\<exists>page na. fetch_page l q (Some by_p) bp ap = Inr (page, Some ta, na)
         \<and> (\<forall>r \<in> set page. ta \<le> by_value by_p r)
         \<and> (page \<noteq> [] \<and> by_p = ByUpdated
              \<longrightarrow> (updated (last page) = ta) = (\<exists>r \<in> set page. updated r = ta)))"
proof
  assume a: "get_paging_param l bp = Inr None \<and> get_paging_param l ap = Inr (Some ta)"
  define m where "m = order_asc by_p (filter (\<lambda>r. ta \<le> by_value by_p r) q)"
  define page where "page = sorted_updated_desc (take PAGE_SIZE m)"
  from a fetch_page_after[of l bp ap ta q by_p] obtain na where
    r: "fetch_page l q (Some by_p) bp ap = Inr (page, Some ta, na)"
    unfolding m_def page_def by blast
  have p: "page_of page m" unfolding page_def by (rule page_of_sorted_take)
  then have "set page \<subseteq> set m" by (rule page_subset)
  then have ge: "\<forall>r \<in> set page. ta \<le> by_value by_p r"
    by (auto simp: m_def order_asc_def)
  have desc: "descending_by updated page" using p by (simp add: page_of_def)
  have "(updated (last page) = ta) = (\<exists>r \<in> set page. updated r = ta)"
    if ne: "page \<noteq> []" and by_p: "by_p = ByUpdated"
  proof
    assume "updated (last page) = ta"
    with ne show "\<exists>r \<in> set page. updated r = ta" using last_in_set by blast
  next
    assume "\<exists>r \<in> set page. updated r = ta"
    then obtain r where r: "r \<in> set page" "updated r = ta" by blast
    from descending_last_least[OF desc r(1)] r(2) have "updated (last page) \<le> ta" by simp
    moreover from ge ne by_p have "ta \<le> updated (last page)" by simp
    ultimately show "updated (last page) = ta" by simp
  qed
  with r ge show "\<exists>page na. fetch_page l q (Some by_p) bp ap = Inr (page, Some ta, na)
         \<and> (\<forall>r \<in> set page. ta \<le> by_value by_p r)
         \<and> (page \<noteq> [] \<and> by_p = ByUpdated
              \<longrightarrow> (updated (last page) = ta) = (\<exists>r \<in> set page. updated r = ta))"
    by blast
qed

lemma long_query_page:
  "fetch_page plain_env long_query (Some ByUpdated) None (Some ''2024-01-05'')
     = Inr (rev (map (\<lambda>n. item ''e'' n n) [7..26]), Some 5, Some 26)"
  by code_simp

text \<open>Witness: the sample query paged after time 5: the new \<open>before\<close> cursor is 5.\<close>

theorem fetch_page_after_new_before_witness:
  "get_paging_param plain_env None = Inr None
   \<and> get_paging_param plain_env (Some ''2024-01-05'') = Inr (Some 5)
   \<and> (\<exists>page na. fetch_page plain_env long_query (Some ByUpdated) None (Some ''2024-01-05'')
         = Inr (page, Some 5, na))"
  using fetch_page_after_new_before[of plain_env None "Some ''2024-01-05''" 5 long_query ByUpdated]
    sample_params
  by blast

text \<open>Counterexample to the claim as stated: the query holds an entity older than the
  cursor 5 and twenty-two later ones, so both an older page and further results exist; the
  page after 5 holds the entities updated from 26 down to 7, and the new \<open>before\<close> cursor
  is 5, not the timestamp 7 of the oldest item of the page.\<close>

theorem fetch_page_new_before_counterexample:
  "fetch_page plain_env long_query (Some ByUpdated) None (Some ''2024-01-05'')
     = Inr (rev (map (\<lambda>n. item ''e'' n n) [7..26]), Some 5, Some 26)
   \<and> updated (last (rev (map (\<lambda>n. item ''e'' n n) [7..26]))) = 7
   \<and> item ''old'' 3 3 \<in> set long_query
   \<and> updated (item ''old'' 3 3) < 5"
proof -
  have "updated (last (rev (map (\<lambda>n. item ''e'' n n) [7..26]))) = 7"
    by code_simp
  moreover have "item ''old'' 3 3 \<in> set long_query"
    by (simp add: long_query_def)
  moreover have "updated (item ''old'' 3 3) < 5"
    by (simp add: item_def)
  ultimately show ?thesis using long_query_page by blast
qed

section \<open>Properties of \<open>Object.get_or_create\<close>\<close>

lemma as1_ignores_flags [simp]:
  "as1 l (ob\<lparr>new := n\<rparr>) = as1 l ob"
  "as1 l (ob\<lparr>changed := c\<rparr>) = as1 l ob"
  by (simp_all add: as1_def)

lemma as1_touch_fields [simp]:
  "object_id (as1_touch l ob) = object_id ob"
  "source_protocol (as1_touch l ob) = source_protocol ob"
  "labels (as1_touch l ob) = labels ob"
  "as2 (as1_touch l ob) = as2 ob"
  "bsky (as1_touch l ob) = bsky ob"
  "mf2 (as1_touch l ob) = mf2 ob"
  "raw (as1_touch l ob) = raw ob"
  "new (as1_touch l ob) = new ob"
  by (simp_all add: as1_touch_def)





lemma set_activity_label_fields [simp]:
  "object_id (set_activity_label act ob) = object_id ob"
  "as2 (set_activity_label act ob) = as2 ob"
  "bsky (set_activity_label act ob) = bsky ob"
  "mf2 (set_activity_label act ob) = mf2 ob"
  "raw (set_activity_label act ob) = raw ob"
  "our_as1 (set_activity_label act ob) = our_as1 ob"
  "new (set_activity_label act ob) = new ob"
  by (simp_all add: set_activity_label_def)




text \<open>An exception leaves the store as it was.\<close>

lemma object_put_error_store: "object_put l st ob = (Inl e, st') \<Longrightarrow> st' = st"
  by (auto simp: object_put_def split: sum.splits)

lemma get_or_create_error_store:
  assumes "get_or_create l st i authed_as p = (Inl e, st')"
  shows "st' = st"
proof (cases "load_and_authorize l st i authed_as")
  case (Inl x)
  with assms show ?thesis by (simp add: get_or_create_def)
next
  case (Inr pair)
  obtain ob orig where pair: "pair = (ob, orig)" by (cases pair)
  show ?thesis
  proof (cases "populate l p (if whole_content_supplied p then clear ob else ob)")
    case (Inl x)
    with assms Inr pair show ?thesis by (simp add: get_or_create_def)
  next
    case ob2: (Inr ob2)
    show ?thesis
    proof (cases "new ob2 \<noteq> Some True")
      case True
      obtain ch ob3 where c: "object_activity_changed l ob2 orig = (ch, ob3)"
        by (cases "object_activity_changed l ob2 orig")
      from assms Inr pair ob2 True c
      have "object_put l st (ob3\<lparr>changed := Some ch\<rparr>) = (Inl e, st')"
        by (simp add: get_or_create_def)
      then show ?thesis by (rule object_put_error_store)
    next
      case False
      with assms Inr pair ob2 have "object_put l st ob2 = (Inl e, st')"
        by (simp add: get_or_create_def)
      then show ?thesis by (rule object_put_error_store)
    qed
  qed
qed

text \<open>The hook and \<open>populate\<close> never raise an HTTP error.\<close>

lemma pre_put_hook_no_http: "pre_put_hook l ob \<noteq> Inl (HTTPError n)"
proof
  assume h: "pre_put_hook l ob = Inl (HTTPError n)"
  have 1: "check_owned l ob \<noteq> Inl (HTTPError n)"
    by (auto simp: check_owned_def split: option.splits)
  have 2: "check_at_uri l ob \<noteq> Inl (HTTPError n)"
    by (simp add: check_at_uri_def)
  have 3: "is_activity l ob \<noteq> Inl (HTTPError n)"
    by (auto simp: is_activity_def read_as1_def Let_def split: json.splits)
  have 4: "strip_as2_context x \<noteq> Inl (HTTPError n)" for x
    by (auto simp: strip_as2_context_def split: json.splits)
  from h 1 2 3 4 show False
    unfolding pre_put_hook_def
    by (cases "check_owned l ob"; cases "check_at_uri l ob"; cases "is_activity l ob") auto
qed

lemma object_put_no_http: "fst (object_put l st ob) \<noteq> Inl (HTTPError n)"
  using pre_put_hook_no_http[of l ob n]
  by (cases "pre_put_hook l ob") (auto simp: object_put_def)

lemma populate_no_http: "populate l p ob \<noteq> Inl (HTTPError n)"
  by (simp add: populate_def)

lemma get_or_create_http:
  assumes "fst (get_or_create l st i authed_as p) = Inl (HTTPError n)"
  shows "load_and_authorize l st i authed_as = Inl (HTTPError n)"
proof (cases "load_and_authorize l st i authed_as")
  case (Inl x)
  with assms show ?thesis by (simp add: get_or_create_def)
next
  case (Inr pair)
  obtain ob orig where pair: "pair = (ob, orig)" by (cases pair)
  show ?thesis
  proof (cases "populate l p (if whole_content_supplied p then clear ob else ob)")
    case (Inl x)
    with assms Inr pair populate_no_http show ?thesis
      by (auto simp: get_or_create_def)
  next
    case ob2: (Inr ob2)
    obtain ch ob3 where c: "object_activity_changed l ob2 orig = (ch, ob3)"
      by (cases "object_activity_changed l ob2 orig")
    from assms Inr pair ob2 c
      object_put_no_http[of l st "ob3\<lparr>changed := Some ch\<rparr>" n] object_put_no_http[of l st ob2 n]
    show ?thesis
      by (auto simp: get_or_create_def split: if_splits)
  qed
qed

text \<open>The authorization step on a stored object that has a canonical form.\<close>

lemma load_and_authorize_stored:
  assumes "get_object_by_id st i = Some ob0" "truthy (as1 l ob0)"
  shows "load_and_authorize l st i authed_as =
     (case authed_as of
        None \<Rightarrow> Inl AssertionError
      | Some authed \<Rightarrow>
          if authed = [] then Inl AssertionError
          else (case protocols_get l (source_protocol ob0) of
                  None \<Rightarrow> Inl AssertionError
                | Some proto \<Rightarrow>
                    if normalize_user_id l authed proto \<notin> set (owners l proto (as1 l ob0) i)
                       \<and> profile_id l authed proto \<notin> set (owners l proto (as1 l ob0) i)
                    then Inl (HTTPError 403)
                    else Inr (as1_touch l (ob0\<lparr>new := Some False\<rparr>), as1 l ob0)))"
  using assms by (cases authed_as) (simp_all add: load_and_authorize_def read_as1_def)

text \<open>
  C2 (as amended).  For a call of \<open>Object.get_or_create\<close> on an id whose stored record has
  a non-empty canonical form: without an \<open>authed_as\<close> the call fails on an assertion; it
  also fails on an assertion when the record's \<open>source_protocol\<close> is not a registered
  protocol; otherwise it is rejected with status 403 exactly when neither
  \<open>normalize_user_id(authed_as)\<close> nor \<open>profile_id(authed_as)\<close> is among the normalized ids
  of the prior content's \<open>author\<close> and \<open>actor\<close> fields and the id itself.  Whenever the
  call raises, the store is as before.
\<close>

theorem get_or_create_authorization:
  "get_object_by_id st i = Some ob0 \<and> truthy (as1 l ob0) \<longrightarrow>
     ((authed_as = None \<or> authed_as = Some [])
        \<longrightarrow> get_or_create l st i authed_as p = (Inl AssertionError, st))
     \<and> (\<forall>authed. authed_as = Some authed \<and> authed \<noteq> [] \<longrightarrow>
          (case protocols_get l (source_protocol ob0) of
             None \<Rightarrow> get_or_create l st i authed_as p = (Inl AssertionError, st)
           | Some proto \<Rightarrow>
               if normalize_user_id l authed proto \<notin> set (owners l proto (as1 l ob0) i)
                  \<and> profile_id l authed proto \<notin> set (owners l proto (as1 l ob0) i)
               then get_or_create l st i authed_as p = (Inl (HTTPError 403), st)
               else fst (get_or_create l st i authed_as p) \<noteq> Inl (HTTPError 403)))
     \<and> (\<forall>e st'. get_or_create l st i authed_as p = (Inl e, st') \<longrightarrow> st' = st)"
proof (intro impI conjI allI)
  assume a: "get_object_by_id st i = Some ob0 \<and> truthy (as1 l ob0)"
  assume "authed_as = None \<or> authed_as = Some []"
  with a show "get_or_create l st i authed_as p = (Inl AssertionError, st)"
    by (auto simp: get_or_create_def load_and_authorize_stored)
next
  fix authed
  assume a: "get_object_by_id st i = Some ob0 \<and> truthy (as1 l ob0)"
  assume b: "authed_as = Some authed \<and> authed \<noteq> []"
  note la = load_and_authorize_stored[of st i ob0 l authed_as]
  show "case protocols_get l (source_protocol ob0) of
             None \<Rightarrow> get_or_create l st i authed_as p = (Inl AssertionError, st)
           | Some proto \<Rightarrow>
               if normalize_user_id l authed proto \<notin> set (owners l proto (as1 l ob0) i)
                  \<and> profile_id l authed proto \<notin> set (owners l proto (as1 l ob0) i)
               then get_or_create l st i authed_as p = (Inl (HTTPError 403), st)
               else fst (get_or_create l st i authed_as p) \<noteq> Inl (HTTPError 403)"
  proof (cases "protocols_get l (source_protocol ob0)")
    case None
    with a b la show ?thesis by (simp add: get_or_create_def)
  next
    case (Some proto)
    show ?thesis
    proof (cases "normalize_user_id l authed proto \<notin> set (owners l proto (as1 l ob0) i)
                  \<and> profile_id l authed proto \<notin> set (owners l proto (as1 l ob0) i)")
      case True
      with a b la Some show ?thesis by (simp add: get_or_create_def)
    next
      case False
      with a b la Some
      have "load_and_authorize l st i authed_as
          = Inr (as1_touch l (ob0\<lparr>new := Some False\<rparr>), as1 l ob0)"
        by auto
      then have "fst (get_or_create l st i authed_as p) \<noteq> Inl (HTTPError 403)"
        using get_or_create_http[of l st i authed_as p 403] by auto
      with Some False show ?thesis by auto
    qed
  qed
next
  fix e st'
  assume "get_or_create l st i authed_as p = (Inl e, st')"
  then show "st' = st" by (rule get_or_create_error_store)
qed

lemma alice_note_stored:
  "get_object_by_id [alice_note] ''https://inst.example/notes/1'' = Some alice_note"
  "truthy (as1 plain_env alice_note)"
  "protocols_get plain_env (source_protocol alice_note) = Some proto_a"
  "owners plain_env proto_a (as1 plain_env alice_note) ''https://inst.example/notes/1''
     = [''https://inst.example/alice'', ''https://inst.example/notes/1'']"
  by code_simp+

lemma alice_note_calls:
  "get_or_create plain_env [alice_note] ''https://inst.example/notes/1'' None no_props
     = (Inl AssertionError, [alice_note])"
  "get_or_create plain_env [alice_note] ''https://inst.example/notes/1''
     (Some ''https://inst.example/eve'') no_props = (Inl (HTTPError 403), [alice_note])"
  "get_or_create plain_env [alice_note] ''https://inst.example/notes/1''
     (Some ''https://inst.example/alice'') no_props
     = (Inr (alice_note\<lparr>new := Some False, changed := Some False\<rparr>), [alice_note])"
  by code_simp+

text \<open>Witness: a stored note of the first protocol whose actor is Alice.  Without
  \<open>authed_as\<close> the call fails on the assertion, for another actor it is rejected with 403,
  for Alice it goes through; the store stays as it was in the first two.\<close>

theorem get_or_create_authorization_witness:
  "get_object_by_id [alice_note] ''https://inst.example/notes/1'' = Some alice_note
   \<and> truthy (as1 plain_env alice_note)
   \<and> protocols_get plain_env (source_protocol alice_note) = Some proto_a
   \<and> get_or_create plain_env [alice_note] ''https://inst.example/notes/1'' None no_props
       = (Inl AssertionError, [alice_note])
   \<and> normalize_user_id plain_env ''https://inst.example/eve'' proto_a
       \<notin> set (owners plain_env proto_a (as1 plain_env alice_note)
                ''https://inst.example/notes/1'')
   \<and> profile_id plain_env ''https://inst.example/eve'' proto_a
       \<notin> set (owners plain_env proto_a (as1 plain_env alice_note)
                ''https://inst.example/notes/1'')
   \<and> get_or_create plain_env [alice_note] ''https://inst.example/notes/1''
        (Some ''https://inst.example/eve'') no_props = (Inl (HTTPError 403), [alice_note])
   \<and> normalize_user_id plain_env ''https://inst.example/alice'' proto_a
       \<in> set (owners plain_env proto_a (as1 plain_env alice_note)
                ''https://inst.example/notes/1'')
   \<and> fst (get_or_create plain_env [alice_note] ''https://inst.example/notes/1''
        (Some ''https://inst.example/alice'') no_props) \<noteq> Inl (HTTPError 403)"
proof -
  have eve: "normalize_user_id plain_env ''https://inst.example/eve'' proto_a
       \<notin> set (owners plain_env proto_a (as1 plain_env alice_note)
                ''https://inst.example/notes/1'')"
    "profile_id plain_env ''https://inst.example/eve'' proto_a
       \<notin> set (owners plain_env proto_a (as1 plain_env alice_note)
                ''https://inst.example/notes/1'')"
    unfolding alice_note_stored(4) by (simp_all add: plain_env_def)
  have alice: "normalize_user_id plain_env ''https://inst.example/alice'' proto_a
       \<in> set (owners plain_env proto_a (as1 plain_env alice_note)
                ''https://inst.example/notes/1'')"
    unfolding alice_note_stored(4) by (simp add: plain_env_def)
  note none = get_or_create_authorization[of "[alice_note]" "''https://inst.example/notes/1''"
      alice_note plain_env None no_props]
  note by_eve = get_or_create_authorization[of "[alice_note]" "''https://inst.example/notes/1''"
      alice_note plain_env "Some ''https://inst.example/eve''" no_props]
  note by_alice = get_or_create_authorization[of "[alice_note]"
      "''https://inst.example/notes/1''" alice_note plain_env
      "Some ''https://inst.example/alice''" no_props]
  from none alice_note_stored(1,2)
  have r1: "get_or_create plain_env [alice_note] ''https://inst.example/notes/1'' None no_props
       = (Inl AssertionError, [alice_note])"
    by blast
  from by_eve alice_note_stored(1,2,3) eve
  have r2: "get_or_create plain_env [alice_note] ''https://inst.example/notes/1''
        (Some ''https://inst.example/eve'') no_props = (Inl (HTTPError 403), [alice_note])"
    by simp
  from by_alice alice_note_stored(1,2,3) alice
  have r3: "fst (get_or_create plain_env [alice_note] ''https://inst.example/notes/1''
        (Some ''https://inst.example/alice'') no_props) \<noteq> Inl (HTTPError 403)"
    by simp
  from alice_note_stored(1,2,3) r1 eve r2 alice r3 show ?thesis by blast
qed

text \<open>Counterexample to the claim as stated: a stored object with a canonical form and no
  source protocol.  The caller is none of the ids of its \<open>author\<close> and \<open>actor\<close> fields or
  the id itself, yet the call is not rejected as forbidden: it fails on
  \<open>assert proto\<close>.\<close>

theorem get_or_create_authorization_counterexample:
  "get_object_by_id [plain_object] ''foo'' = Some plain_object
   \<and> truthy (as1 plain_env plain_object)
   \<and> ''eve'' \<notin> set (get_ids plain_env (as1 plain_env plain_object) ''author''
                     @ get_ids plain_env (as1 plain_env plain_object) ''actor'' @ [''foo''])
   \<and> get_or_create plain_env [plain_object] ''foo'' (Some ''eve'') no_props
       = (Inl AssertionError, [plain_object])"
  by code_simp

section \<open>Content variants across \<open>Object.get_or_create\<close>\<close>










lemma as1_touch_feed [simp]:
  "atom (as1_touch l ob) = atom ob" "rss (as1_touch l ob) = rss ob"
  by (simp_all add: as1_touch_def)

lemma as1_touch_changed:
  "as1_touch l (ob\<lparr>changed := c\<rparr>) = (as1_touch l ob)\<lparr>changed := c\<rparr>"
  by (simp add: as1_touch_def)









section \<open>Properties of the merge in \<open>User.get_or_create\<close>\<close>

lemma read_obj_value: "fst (read_obj objs u) = user_obj objs u"
  by (simp add: read_obj_def user_obj_def obj_of_def split: option.splits)

lemma read_obj_user:
  "snd (read_obj objs u) = u \<or> snd (read_obj objs u) = u\<lparr>obj_attr := Some (user_obj objs u)\<rparr>"
  by (auto simp: read_obj_def user_obj_def obj_of_def split: option.splits)

lemma user_obj_cached [simp]:
  "user_obj objs (u\<lparr>obj_attr := Some (user_obj objs u)\<rparr>) = user_obj objs u"
  by (simp add: user_obj_def obj_of_def split: option.splits)

lemma user_obj_ignores [simp]:
  "user_obj objs (u\<lparr>direct := d\<rparr>) = user_obj objs u"
  "user_obj objs (u\<lparr>enabled_protocols := ps\<rparr>) = user_obj objs u"
  by (simp_all add: user_obj_def)

lemma merge_direct_props:
  assumes "merge_direct u kw = (u', c)"
  shows "obj_key u' = obj_key u \<and> obj_attr u' = obj_attr u
     \<and> enabled_protocols u' = enabled_protocols u
     \<and> (direct u = Some True \<longrightarrow> direct u' = Some True)
     \<and> (direct u' \<noteq> direct u \<longrightarrow>
          (direct u = None \<and> direct u' = kw_direct kw)
          \<or> (direct u = Some False \<and> direct u' = Some True))"
  using assms by (cases "direct u") (auto simp: merge_direct_def split: if_splits)

lemma merge_obj_props:
  assumes "merge_obj objs u kw = (u', c)"
  shows "direct u' = direct u \<and> enabled_protocols u' = enabled_protocols u
     \<and> (user_obj objs u \<noteq> None \<longrightarrow> user_obj objs u' = user_obj objs u \<and> obj_key u' = obj_key u)
     \<and> (kw_obj kw = None \<longrightarrow> obj_key u' = obj_key u)
     \<and> (user_obj objs u = None \<longrightarrow>
          (case kw_obj kw of
             None \<Rightarrow> user_obj objs u' = None
           | Some ob \<Rightarrow> user_obj objs u' = Some ob \<and> obj_key u' = Some (object_id ob)))"
proof -
  obtain old u1 where r: "read_obj objs u = (old, u1)" by (cases "read_obj objs u")
  then have old: "old = user_obj objs u" using read_obj_value[of objs u] by simp
  from r read_obj_user[of objs u]
  have u1: "u1 = u \<or> u1 = u\<lparr>obj_attr := Some (user_obj objs u)\<rparr>" by simp
  then have k1: "obj_key u1 = obj_key u" "direct u1 = direct u"
    "enabled_protocols u1 = enabled_protocols u" "user_obj objs u1 = user_obj objs u"
    by auto
  show ?thesis
  proof (cases "kw_obj kw")
    case None
    with assms r have "u' = u1" by (simp add: merge_obj_def)
    with None k1 show ?thesis by simp
  next
    case (Some ob)
    show ?thesis
    proof (cases "old = None")
      case True
      with assms r Some have "u' = set_obj u1 ob" by (simp add: merge_obj_def)
      with Some True old k1 show ?thesis by (simp add: set_obj_def user_obj_def obj_of_def)
    next
      case False
      with assms r Some have "u' = u1" by (simp add: merge_obj_def)
      with Some False old k1 show ?thesis by simp
    qed
  qed
qed

lemma merge_obj_key_props:
  assumes "merge_obj_key u kw = (u', c)"
  shows "direct u' = direct u \<and> enabled_protocols u' = enabled_protocols u
     \<and> (obj_key u \<noteq> None \<longrightarrow> u' = u)"
  using assms by (auto simp: merge_obj_key_def split: if_splits)

lemma merge_enabled_protocols_props:
  assumes "merge_enabled_protocols l u kw = Inr (u', c)"
  shows "direct u' = direct u \<and> obj_key u' = obj_key u \<and> obj_attr u' = obj_attr u
     \<and> set (enabled_protocols u') = set (enabled_protocols u)
          \<union> (case kw_enabled_protocols kw of None \<Rightarrow> {} | Some ps \<Rightarrow> set ps)"
  using assms
  by (auto simp: merge_enabled_protocols_def split: option.splits if_splits)

lemma merge_kwargs_steps:
  assumes "merge_kwargs l objs u kw = Inr (u', c)"
  obtains u1 c1 u2 c2 u3 c3 c4 where
    "merge_direct u kw = (u1, c1)" "merge_obj objs u1 kw = (u2, c2)"
    "merge_obj_key u2 kw = (u3, c3)" "merge_enabled_protocols l u3 kw = Inr (u', c4)"
proof -
  obtain u1 c1 where 1: "merge_direct u kw = (u1, c1)" by (cases "merge_direct u kw")
  obtain u2 c2 where 2: "merge_obj objs u1 kw = (u2, c2)" by (cases "merge_obj objs u1 kw")
  obtain u3 c3 where 3: "merge_obj_key u2 kw = (u3, c3)" by (cases "merge_obj_key u2 kw")
  from assms 1 2 3 obtain c4 where "merge_enabled_protocols l u3 kw = Inr (u', c4)"
    by (auto simp: merge_kwargs_def split: sum.splits)
  with 1 2 3 that show ?thesis by blast
qed

lemma merge_kwargs_total:
  assumes "\<forall>ps. kw_enabled_protocols kw = Some ps \<longrightarrow>
     set (enabled_protocols u @ ps) \<subseteq> fst ` set (PROTOCOLS l)"
  shows "\<exists>u' c. merge_kwargs l objs u kw = Inr (u', c)"
proof -
  obtain u1 c1 where 1: "merge_direct u kw = (u1, c1)" by (cases "merge_direct u kw")
  obtain u2 c2 where 2: "merge_obj objs u1 kw = (u2, c2)" by (cases "merge_obj objs u1 kw")
  obtain u3 c3 where 3: "merge_obj_key u2 kw = (u3, c3)" by (cases "merge_obj_key u2 kw")
  have "enabled_protocols u3 = enabled_protocols u"
    using merge_direct_props[OF 1] merge_obj_props[OF 2] merge_obj_key_props[OF 3] by simp
  with assms have "\<exists>u4 c4. merge_enabled_protocols l u3 kw = Inr (u4, c4)"
    by (auto simp: merge_enabled_protocols_def split: option.splits)
  with 1 2 3 show ?thesis by (auto simp: merge_kwargs_def)
qed

lemma merge_kwargs_props:
  assumes m: "merge_kwargs l objs u kw = Inr (u', c)"
  shows "(direct u = Some True \<longrightarrow> direct u' = Some True)
        \<and> (direct u' \<noteq> direct u \<longrightarrow>
             (direct u = None \<and> direct u' = kw_direct kw)
             \<or> (direct u = Some False \<and> direct u' = Some True))
        \<and> (user_obj objs u \<noteq> None \<longrightarrow>
             user_obj objs u' = user_obj objs u \<and> obj_key u' = obj_key u)
        \<and> (obj_key u \<noteq> None \<and> kw_obj kw = None \<longrightarrow> obj_key u' = obj_key u)
        \<and> (obj_key u' \<noteq> obj_key u \<longrightarrow> user_obj objs u = None)
        \<and> set (enabled_protocols u') = set (enabled_protocols u)
             \<union> (case kw_enabled_protocols kw of None \<Rightarrow> {} | Some ps \<Rightarrow> set ps)"
proof -
  from m obtain u1 c1 u2 c2 u3 c3 c4 where
    1: "merge_direct u kw = (u1, c1)" and 2: "merge_obj objs u1 kw = (u2, c2)"
    and 3: "merge_obj_key u2 kw = (u3, c3)"
    and 4: "merge_enabled_protocols l u3 kw = Inr (u', c4)"
    by (rule merge_kwargs_steps)
  note p1 = merge_direct_props[OF 1]
  note p2 = merge_obj_props[OF 2]
  note p3 = merge_obj_key_props[OF 3]
  note p4 = merge_enabled_protocols_props[OF 4]
  have d: "direct u' = direct u1" using p2 p3 p4 by simp
  have o1: "user_obj objs u1 = user_obj objs u" using p1 by (simp add: user_obj_def)
  have ou': "user_obj objs u' = user_obj objs u3" using p4 by (simp add: user_obj_def)
  have a: "direct u = Some True \<longrightarrow> direct u' = Some True"
    using p1 d by simp
  have b: "direct u' \<noteq> direct u \<longrightarrow>
             (direct u = None \<and> direct u' = kw_direct kw)
             \<or> (direct u = Some False \<and> direct u' = Some True)"
    using p1 d by auto
  have loads_kept: "user_obj objs u' = user_obj objs u \<and> obj_key u' = obj_key u"
    if loads: "user_obj objs u \<noteq> None"
  proof -
    from loads o1 p2 p1 have 22: "user_obj objs u2 = user_obj objs u \<and> obj_key u2 = obj_key u"
      by simp
    with loads have "obj_key u2 \<noteq> None"
      by (auto simp: user_obj_def obj_of_def split: option.splits)
    with p3 have "u3 = u2" by simp
    with 22 ou' p4 show ?thesis by simp
  qed
  have e: "obj_key u \<noteq> None \<and> kw_obj kw = None \<longrightarrow> obj_key u' = obj_key u"
  proof
    assume k: "obj_key u \<noteq> None \<and> kw_obj kw = None"
    with p1 p2 have "obj_key u2 = obj_key u" by simp
    with k p3 p4 show "obj_key u' = obj_key u" by simp
  qed
  have f: "set (enabled_protocols u') = set (enabled_protocols u)
       \<union> (case kw_enabled_protocols kw of None \<Rightarrow> {} | Some ps \<Rightarrow> set ps)"
    using p1 p2 p3 p4 by simp
  from a b loads_kept e f show ?thesis by blast
qed

lemma merge_kwargs_exact:
  assumes m: "merge_kwargs l objs u kw = Inr (u', c)"
  shows "direct u' = (if (direct u = None \<and> kw_direct kw \<noteq> None)
                         \<or> (direct u \<noteq> Some True \<and> kw_direct kw = Some True)
                      then kw_direct kw else direct u)"
    and "user_obj objs u = None \<Longrightarrow> kw_obj kw = Some ob
           \<Longrightarrow> obj_key u' = Some (object_id ob) \<and> user_obj objs u' = Some ob"
    and "obj_key u = None \<Longrightarrow> kw_obj kw = None \<Longrightarrow> obj_key u' = kw_obj_key kw"
proof -
  from m obtain u1 c1 u2 c2 u3 c3 c4 where
    1: "merge_direct u kw = (u1, c1)" and 2: "merge_obj objs u1 kw = (u2, c2)"
    and 3: "merge_obj_key u2 kw = (u3, c3)"
    and 4: "merge_enabled_protocols l u3 kw = Inr (u', c4)"
    by (rule merge_kwargs_steps)
  note p1 = merge_direct_props[OF 1]
  note p2 = merge_obj_props[OF 2]
  note p3 = merge_obj_key_props[OF 3]
  note p4 = merge_enabled_protocols_props[OF 4]
  have o1: "user_obj objs u1 = user_obj objs u" using p1 by (simp add: user_obj_def)
  have ou': "user_obj objs u' = user_obj objs u3" using p4 by (simp add: user_obj_def)
  have "direct u1 = (if (direct u = None \<and> kw_direct kw \<noteq> None)
                         \<or> (direct u \<noteq> Some True \<and> kw_direct kw = Some True)
                      then kw_direct kw else direct u)"
    using 1 by (auto simp: merge_direct_def split: if_splits)
  with p2 p3 p4
  show "direct u' = (if (direct u = None \<and> kw_direct kw \<noteq> None)
                         \<or> (direct u \<noteq> Some True \<and> kw_direct kw = Some True)
                      then kw_direct kw else direct u)"
    by simp
  show "obj_key u' = Some (object_id ob) \<and> user_obj objs u' = Some ob"
    if "user_obj objs u = None" and "kw_obj kw = Some ob"
  proof -
    from that o1 p2 have 22: "user_obj objs u2 = Some ob \<and> obj_key u2 = Some (object_id ob)"
      by simp
    with p3 have "u3 = u2" by simp
    with 22 ou' p4 show ?thesis by simp
  qed
  show "obj_key u' = kw_obj_key kw" if "obj_key u = None" and "kw_obj kw = None"
  proof -
    from that p1 p2 have "obj_key u2 = None" by simp
    with 3 have "obj_key u3 = kw_obj_key kw"
      by (auto simp: merge_obj_key_def split: if_splits)
    with p4 show ?thesis by simp
  qed
qed

lemma merge_kwargs_bad_label:
  assumes "kw_enabled_protocols kw = Some ps" and "ps \<noteq> []"
    and "\<not> set (enabled_protocols u @ ps) \<subseteq> fst ` set (PROTOCOLS l)"
  shows "merge_kwargs l objs u kw = Inl BadValueError"
proof -
  obtain u1 c1 where 1: "merge_direct u kw = (u1, c1)" by (cases "merge_direct u kw")
  obtain u2 c2 where 2: "merge_obj objs u1 kw = (u2, c2)" by (cases "merge_obj objs u1 kw")
  obtain u3 c3 where 3: "merge_obj_key u2 kw = (u3, c3)" by (cases "merge_obj_key u2 kw")
  have "enabled_protocols u3 = enabled_protocols u"
    using merge_direct_props[OF 1] merge_obj_props[OF 2] merge_obj_key_props[OF 3] by simp
  with assms have "merge_enabled_protocols l u3 kw = Inl BadValueError"
    by (simp add: merge_enabled_protocols_def)
  with 1 2 3 show ?thesis by (simp add: merge_kwargs_def)
qed

text \<open>
  C4 (as amended).  The merge of \<open>User.get_or_create\<close> is monotonic.  It goes through
  whenever the labels involved are registered, and it raises \<open>BadValueError\<close> when the call
  passes protocols and one of the stored or passed labels is not registered.  When it goes
  through:

  \<^item> a \<open>direct\<close> flag that is true stays true whatever \<open>direct\<close> the call passes; \<open>direct\<close>
    changes only from unset to the passed value or from false to true, and it does change
    in just these cases;
  \<^item> a profile that loads is never replaced, and neither is its key; when the stored
    profile does not load (no key, or a key without a stored object), a passed \<open>obj\<close>
    becomes the profile and its key becomes \<open>obj_key\<close>; without a passed \<open>obj\<close>, a key that
    is set stays and a key that is unset takes the passed \<open>obj_key\<close>;
  \<^item> the enabled protocols afterwards are the union of the stored and the passed ones.
\<close>

theorem merge_kwargs_monotonic:
  "((\<forall>ps. kw_enabled_protocols kw = Some ps \<longrightarrow>
        set (enabled_protocols u @ ps) \<subseteq> fst ` set (PROTOCOLS l))
      \<longrightarrow> (\<exists>u' c. merge_kwargs l objs u kw = Inr (u', c)))
   \<and> (kw_enabled_protocols kw = Some ps \<and> ps \<noteq> []
        \<and> \<not> set (enabled_protocols u @ ps) \<subseteq> fst ` set (PROTOCOLS l)
      \<longrightarrow> merge_kwargs l objs u kw = Inl BadValueError)
   \<and> (merge_kwargs l objs u kw = Inr (u', c) \<longrightarrow>
        (direct u = Some True \<longrightarrow> direct u' = Some True)
        \<and> (direct u' \<noteq> direct u \<longrightarrow>
             (direct u = None \<and> direct u' = kw_direct kw)
             \<or> (direct u = Some False \<and> direct u' = Some True))
        \<and> direct u' = (if (direct u = None \<and> kw_direct kw \<noteq> None)
                           \<or> (direct u \<noteq> Some True \<and> kw_direct kw = Some True)
                        then kw_direct kw else direct u)
        \<and> (user_obj objs u \<noteq> None \<longrightarrow>
             user_obj objs u' = user_obj objs u \<and> obj_key u' = obj_key u)
        \<and> (user_obj objs u = None \<and> kw_obj kw = Some ob \<longrightarrow>
             obj_key u' = Some (object_id ob) \<and> user_obj objs u' = Some ob)
        \<and> (obj_key u \<noteq> None \<and> kw_obj kw = None \<longrightarrow> obj_key u' = obj_key u)
        \<and> (obj_key u = None \<and> kw_obj kw = None \<longrightarrow> obj_key u' = kw_obj_key kw)
        \<and> (obj_key u' \<noteq> obj_key u \<longrightarrow> user_obj objs u = None)
        \<and> set (enabled_protocols u') = set (enabled_protocols u)
             \<union> (case kw_enabled_protocols kw of None \<Rightarrow> {} | Some ps \<Rightarrow> set ps))"
proof (intro conjI impI)
  show "\<exists>u' c. merge_kwargs l objs u kw = Inr (u', c)"
    if "\<forall>ps. kw_enabled_protocols kw = Some ps \<longrightarrow>
          set (enabled_protocols u @ ps) \<subseteq> fst ` set (PROTOCOLS l)"
    using that by (rule merge_kwargs_total)
  show "merge_kwargs l objs u kw = Inl BadValueError"
    if "kw_enabled_protocols kw = Some ps \<and> ps \<noteq> []
        \<and> \<not> set (enabled_protocols u @ ps) \<subseteq> fst ` set (PROTOCOLS l)"
    using that merge_kwargs_bad_label[of kw ps u l objs] by simp
  show "direct u' = Some True"
    if "merge_kwargs l objs u kw = Inr (u', c)" and "direct u = Some True"
    using merge_kwargs_props[OF that(1)] that(2) by simp
  show "(direct u = None \<and> direct u' = kw_direct kw)
      \<or> (direct u = Some False \<and> direct u' = Some True)"
    if "merge_kwargs l objs u kw = Inr (u', c)" and "direct u' \<noteq> direct u"
    using merge_kwargs_props[OF that(1)] that(2) by simp
  show "direct u' = (if (direct u = None \<and> kw_direct kw \<noteq> None)
                         \<or> (direct u \<noteq> Some True \<and> kw_direct kw = Some True)
                      then kw_direct kw else direct u)"
    if "merge_kwargs l objs u kw = Inr (u', c)"
    using merge_kwargs_exact(1)[OF that] .
  show "user_obj objs u' = user_obj objs u"
    if "merge_kwargs l objs u kw = Inr (u', c)" and "user_obj objs u \<noteq> None"
    using merge_kwargs_props[OF that(1)] that(2) by simp
  show "obj_key u' = obj_key u"
    if "merge_kwargs l objs u kw = Inr (u', c)" and "user_obj objs u \<noteq> None"
    using merge_kwargs_props[OF that(1)] that(2) by simp
  show "obj_key u' = Some (object_id ob)"
    if "merge_kwargs l objs u kw = Inr (u', c)"
      and "user_obj objs u = None \<and> kw_obj kw = Some ob"
    using merge_kwargs_exact(2)[OF that(1), of ob] that(2) by simp
  show "user_obj objs u' = Some ob"
    if "merge_kwargs l objs u kw = Inr (u', c)"
      and "user_obj objs u = None \<and> kw_obj kw = Some ob"
    using merge_kwargs_exact(2)[OF that(1), of ob] that(2) by simp
  show "obj_key u' = obj_key u"
    if "merge_kwargs l objs u kw = Inr (u', c)" and "obj_key u \<noteq> None \<and> kw_obj kw = None"
    using merge_kwargs_props[OF that(1)] that(2) by simp
  show "obj_key u' = kw_obj_key kw"
    if "merge_kwargs l objs u kw = Inr (u', c)" and "obj_key u = None \<and> kw_obj kw = None"
    using merge_kwargs_exact(3)[OF that(1)] that(2) by simp
  show "user_obj objs u = None"
    if "merge_kwargs l objs u kw = Inr (u', c)" and "obj_key u' \<noteq> obj_key u"
    using merge_kwargs_props[OF that(1)] that(2) by blast
  show "set (enabled_protocols u') = set (enabled_protocols u)
      \<union> (case kw_enabled_protocols kw of None \<Rightarrow> {} | Some ps \<Rightarrow> set ps)"
    if "merge_kwargs l objs u kw = Inr (u', c)"
    using merge_kwargs_props[OF that] by simp
qed

lemma dave_merge_direct:
  "merge_kwargs plain_env [] dave_a
     (no_user_kwargs\<lparr>kw_direct := Some False, kw_enabled_protocols := Some [''web'']\<rparr>)
     = Inr (dave_a\<lparr>obj_attr := Some None, enabled_protocols := [''atproto'', ''web'']\<rparr>, True)"
  by code_simp

lemma dave_merge_profile:
  "merge_kwargs plain_env [] dave_a (no_user_kwargs\<lparr>kw_obj := Some dave_profile\<rparr>)
     = Inr (dave_a\<lparr>obj_attr := Some (Some dave_profile),
                   obj_key := Some ''https://inst.example/dave''\<rparr>, True)"
  by code_simp

text \<open>Witness: a direct user with one enabled protocol, whose profile key has no stored
  object.  A call that passes \<open>direct=False\<close> and another protocol leaves the flag true and
  joins the protocols; a call that passes a profile object makes its key the user's
  \<open>obj_key\<close>; a call that passes an unregistered label raises.\<close>

theorem merge_kwargs_monotonic_witness:
  "set (enabled_protocols dave_a @ [''web'']) \<subseteq> fst ` set (PROTOCOLS plain_env)
   \<and> merge_kwargs plain_env [] dave_a
        (no_user_kwargs\<lparr>kw_direct := Some False, kw_enabled_protocols := Some [''web'']\<rparr>)
       = Inr (dave_a\<lparr>obj_attr := Some None, enabled_protocols := [''atproto'', ''web'']\<rparr>, True)
   \<and> direct dave_a = Some True
   \<and> direct (dave_a\<lparr>obj_attr := Some None, enabled_protocols := [''atproto'', ''web'']\<rparr>)
       = Some True
   \<and> set (enabled_protocols
        (dave_a\<lparr>obj_attr := Some None, enabled_protocols := [''atproto'', ''web'']\<rparr>))
       = set (enabled_protocols dave_a) \<union> set [''web'']
   \<and> user_obj [] dave_a = None
   \<and> obj_key (dave_a\<lparr>obj_attr := Some (Some dave_profile),
                      obj_key := Some ''https://inst.example/dave''\<rparr>)
       = Some (object_id dave_profile)
   \<and> merge_kwargs plain_env [] dave_a
        (no_user_kwargs\<lparr>kw_enabled_protocols := Some [''nostr'']\<rparr>) = Inl BadValueError"
proof -
  note t = merge_kwargs_monotonic[where l = plain_env and objs = "[]" and u = dave_a
      and kw = "no_user_kwargs\<lparr>kw_direct := Some False,
                               kw_enabled_protocols := Some [''web'']\<rparr>"
      and u' = "dave_a\<lparr>obj_attr := Some None, enabled_protocols := [''atproto'', ''web'']\<rparr>"
      and c = True and ps = "[''web'']" and ob = dave_profile]
  note t2 = merge_kwargs_monotonic[where l = plain_env and objs = "[]" and u = dave_a
      and kw = "no_user_kwargs\<lparr>kw_obj := Some dave_profile\<rparr>"
      and u' = "dave_a\<lparr>obj_attr := Some (Some dave_profile),
                        obj_key := Some ''https://inst.example/dave''\<rparr>"
      and c = True and ps = "[]" and ob = dave_profile]
  note t3 = merge_kwargs_monotonic[where l = plain_env and objs = "[]" and u = dave_a
      and kw = "no_user_kwargs\<lparr>kw_enabled_protocols := Some [''nostr'']\<rparr>"
      and u' = dave_a and c = True and ps = "[''nostr'']" and ob = dave_profile]
  have labels: "set (enabled_protocols dave_a @ [''web'']) \<subseteq> fst ` set (PROTOCOLS plain_env)"
    by (simp add: dave_a_def new_user_def plain_env_def)
  have d: "direct dave_a = Some True" by (simp add: dave_a_def)
  note s = mp[OF t[THEN conjunct2, THEN conjunct2] dave_merge_direct]
  from s[THEN conjunct1] d
  have 1: "direct (dave_a\<lparr>obj_attr := Some None,
      enabled_protocols := [''atproto'', ''web'']\<rparr>) = Some True"
    by (rule mp)
  from s
  have 2: "set (enabled_protocols
        (dave_a\<lparr>obj_attr := Some None, enabled_protocols := [''atproto'', ''web'']\<rparr>))
       = set (enabled_protocols dave_a) \<union> set [''web'']"
    by (simp add: no_user_kwargs_def)
  have n: "user_obj [] dave_a = None" by code_simp
  have k: "kw_obj (no_user_kwargs\<lparr>kw_obj := Some dave_profile\<rparr>) = Some dave_profile"
    by simp
  note s2 = mp[OF t2[THEN conjunct2, THEN conjunct2] dave_merge_profile]
  from s2[THEN conjunct2, THEN conjunct2, THEN conjunct2, THEN conjunct2, THEN conjunct1]
    conjI[OF n k]
  have "obj_key (dave_a\<lparr>obj_attr := Some (Some dave_profile),
                      obj_key := Some ''https://inst.example/dave''\<rparr>)
       = Some (object_id dave_profile)
     \<and> user_obj [] (dave_a\<lparr>obj_attr := Some (Some dave_profile),
                      obj_key := Some ''https://inst.example/dave''\<rparr>) = Some dave_profile"
    by (rule mp)
  then have 3: "obj_key (dave_a\<lparr>obj_attr := Some (Some dave_profile),
                      obj_key := Some ''https://inst.example/dave''\<rparr>)
       = Some (object_id dave_profile)" by (rule conjunct1)
  have b: "kw_enabled_protocols (no_user_kwargs\<lparr>kw_enabled_protocols := Some [''nostr'']\<rparr>)
        = Some [''nostr'']
      \<and> [''nostr''] \<noteq> []
      \<and> \<not> set (enabled_protocols dave_a @ [''nostr'']) \<subseteq> fst ` set (PROTOCOLS plain_env)"
    by (simp add: dave_a_def new_user_def plain_env_def)
  from t3[THEN conjunct2, THEN conjunct1] b
  have 4: "merge_kwargs plain_env [] dave_a
      (no_user_kwargs\<lparr>kw_enabled_protocols := Some [''nostr'']\<rparr>) = Inl BadValueError"
    by (rule mp)
  from labels dave_merge_direct d 1 2 n 3 4 show ?thesis by (intro conjI)
qed

text \<open>Counterexample to the claim as stated: the user's \<open>obj_key\<close> is set, but no object is
  stored under it; the call passes a profile object, and the merge replaces the key.\<close>

theorem merge_kwargs_overwrite_counterexample:
  "obj_key dave_a = Some ''https://inst.example/gone''
   \<and> merge_kwargs plain_env [] dave_a (no_user_kwargs\<lparr>kw_obj := Some dave_profile\<rparr>)
       = Inr (dave_a\<lparr>obj_attr := Some (Some dave_profile),
                     obj_key := Some ''https://inst.example/dave''\<rparr>, True)
   \<and> obj_key (dave_a\<lparr>obj_attr := Some (Some dave_profile),
                     obj_key := Some ''https://inst.example/dave''\<rparr>)
       = Some ''https://inst.example/dave''"
  by code_simp

section \<open>Adding a copy and resolving it\<close>

lemma memcache_memoize_hit:
  "pickle_memcache_get (memcache s) (memcache_memoize_key fn arg) = Some v
   \<Longrightarrow> memcache_memoize fn f arg s = (Inr v, s)"
  by (simp add: memcache_memoize_def)

lemma user_add_copies_state:
  "snd (user_add u (UserCopies t) s)
     = s\<lparr>memcache := (memcache_memoize_key ''get_original_user_key'' (uri t),
                       Some (user_key_of u)) # memcache s\<rparr>"
  by (simp add: user_add_def pickle_memcache_set_def)

lemma object_add_copies_state:
  "snd (object_add ob (ObjectCopies t) s)
     = s\<lparr>memcache := (memcache_memoize_key ''get_original_object_key'' (uri t),
                       Some (object_key_of ob)) # memcache s\<rparr>"
  by (simp add: object_add_def pickle_memcache_set_def)

lemma get_original_user_key_memcache_hit:
  assumes "map_of (lru_user s) copy_id = None"
    and "pickle_memcache_get (memcache s)
           (memcache_memoize_key ''get_original_user_key'' copy_id) = Some v"
  shows "get_original_user_key l users copy_id s
           = (Inr v, s\<lparr>lru_user := lru_store (lru_user s) copy_id v\<rparr>)"
  using assms by (simp add: get_original_user_key_def memcache_memoize_hit)

lemma get_original_object_key_memcache_hit:
  assumes "map_of (lru_object s) copy_id = None"
    and "pickle_memcache_get (memcache s)
           (memcache_memoize_key ''get_original_object_key'' copy_id) = Some v"
  shows "get_original_object_key objs copy_id s
           = (Inr v, s\<lparr>lru_object := lru_store (lru_object s) copy_id v\<rparr>)"
  using assms by (simp add: get_original_object_key_def memcache_memoize_hit)

lemma get_original_user_key_lru_hit:
  "map_of (lru_user s) copy_id = Some v
   \<Longrightarrow> get_original_user_key l users copy_id s
        = (Inr v, s\<lparr>lru_user := lru_touch (lru_user s) copy_id v\<rparr>)"
  by (simp add: get_original_user_key_def)

lemma get_original_object_key_lru_hit:
  "map_of (lru_object s) copy_id = Some v
   \<Longrightarrow> get_original_object_key objs copy_id s
        = (Inr v, s\<lparr>lru_object := lru_touch (lru_object s) copy_id v\<rparr>)"
  by (simp add: get_original_object_key_def)

text \<open>
  C5 (amended).  \<open>add('copies', target)\<close> on a user or an object appends the target (when the
  entity does not hold it yet) and sets the shared cache's entry for the target's URI to the
  entity's key.  A resolution of that URI right after the call returns the entity's key,
  without a datastore query and whatever the datastore holds, provided the process's own
  cache (\<open>lru_cache\<close>) has no entry for the URI; when it has one, the resolution returns
  that entry.
\<close>

theorem add_copies_read_after_write:
  "copies (fst (user_add u (UserCopies t) s)) = util_add (copies u) t
   \<and> object_copies (fst (object_add ob (ObjectCopies t) s)) = util_add (object_copies ob) t
   \<and> pickle_memcache_get (memcache (snd (user_add u (UserCopies t) s)))
         (memcache_memoize_key ''get_original_user_key'' (uri t)) = Some (Some (user_key_of u))
   \<and> pickle_memcache_get (memcache (snd (object_add ob (ObjectCopies t) s)))
         (memcache_memoize_key ''get_original_object_key'' (uri t))
       = Some (Some (object_key_of ob))
   \<and> (map_of (lru_user s) (uri t) = None \<longrightarrow>
        fst (get_original_user_key l users (uri t) (snd (user_add u (UserCopies t) s)))
          = Inr (Some (user_key_of u))
        \<and> queries (snd (get_original_user_key l users (uri t)
                          (snd (user_add u (UserCopies t) s)))) = queries s)
   \<and> (map_of (lru_object s) (uri t) = None \<longrightarrow>
        fst (get_original_object_key objs (uri t) (snd (object_add ob (ObjectCopies t) s)))
          = Inr (Some (object_key_of ob))
        \<and> queries (snd (get_original_object_key objs (uri t)
                          (snd (object_add ob (ObjectCopies t) s)))) = queries s)
   \<and> (map_of (lru_user s) (uri t) = Some v \<longrightarrow>
        fst (get_original_user_key l users (uri t) (snd (user_add u (UserCopies t) s)))
          = Inr v)
   \<and> (map_of (lru_object s) (uri t) = Some v \<longrightarrow>
        fst (get_original_object_key objs (uri t) (snd (object_add ob (ObjectCopies t) s)))
          = Inr v)"
proof -
  let ?su = "snd (user_add u (UserCopies t) s)"
  let ?so = "snd (object_add ob (ObjectCopies t) s)"
  have c1: "copies (fst (user_add u (UserCopies t) s)) = util_add (copies u) t"
    by (simp add: user_add_def)
  have c2: "object_copies (fst (object_add ob (ObjectCopies t) s))
      = util_add (object_copies ob) t"
    by (simp add: object_add_def)
  have m1: "pickle_memcache_get (memcache ?su)
      (memcache_memoize_key ''get_original_user_key'' (uri t)) = Some (Some (user_key_of u))"
    by (simp add: user_add_copies_state pickle_memcache_get_def)
  have m2: "pickle_memcache_get (memcache ?so)
      (memcache_memoize_key ''get_original_object_key'' (uri t))
        = Some (Some (object_key_of ob))"
    by (simp add: object_add_copies_state pickle_memcache_get_def)
  have lu: "lru_user ?su = lru_user s" and qu: "queries ?su = queries s"
    by (simp_all add: user_add_copies_state)
  have lo: "lru_object ?so = lru_object s" and qo: "queries ?so = queries s"
    by (simp_all add: object_add_copies_state)
  have r1: "fst (get_original_user_key l users (uri t) ?su) = Inr (Some (user_key_of u))
      \<and> queries (snd (get_original_user_key l users (uri t) ?su)) = queries s"
    if "map_of (lru_user s) (uri t) = None"
    using that get_original_user_key_memcache_hit[OF _ m1, of l users] lu qu by simp
  have r2: "fst (get_original_object_key objs (uri t) ?so) = Inr (Some (object_key_of ob))
      \<and> queries (snd (get_original_object_key objs (uri t) ?so)) = queries s"
    if "map_of (lru_object s) (uri t) = None"
    using that get_original_object_key_memcache_hit[OF _ m2, of objs] lo qo by simp
  have r3: "fst (get_original_user_key l users (uri t) ?su) = Inr v"
    if "map_of (lru_user s) (uri t) = Some v"
    using that get_original_user_key_lru_hit[of ?su "uri t" v l users] lu by simp
  have r4: "fst (get_original_object_key objs (uri t) ?so) = Inr v"
    if "map_of (lru_object s) (uri t) = Some v"
    using that get_original_object_key_lru_hit[of ?so "uri t" v objs] lo by simp
  from c1 c2 m1 m2 r1 r2 r3 r4 show ?thesis by blast
qed

lemma no_caches_user_copy:
  "user_add alice_a (UserCopies alice_copy) no_caches
     = (alice_a\<lparr>copies := [alice_copy]\<rparr>,
        no_caches\<lparr>memcache := [((''get_original_user_key'', ''did:plc:alice''),
                                 Some (''ActivityPub'', ''https://inst.example/alice''))]\<rparr>)"
  by code_simp

text \<open>Witness: in a process that has resolved nothing yet, the first sample user gains a
  copy; the URI then resolves to her key, with an empty datastore and no query.\<close>

theorem add_copies_read_after_write_witness:
  "map_of (lru_user no_caches) (uri alice_copy) = None
   \<and> fst (get_original_user_key plain_env [] (uri alice_copy)
            (snd (user_add alice_a (UserCopies alice_copy) no_caches)))
       = Inr (Some (user_key_of alice_a))
   \<and> queries (snd (get_original_user_key plain_env [] (uri alice_copy)
                     (snd (user_add alice_a (UserCopies alice_copy) no_caches)))) = 0
   \<and> user_key_of alice_a = (''ActivityPub'', ''https://inst.example/alice'')"
proof -
  have e: "map_of (lru_user no_caches) (uri alice_copy) = None"
    by (simp add: no_caches_def)
  have q: "queries no_caches = 0" by (simp add: no_caches_def)
  have k: "user_key_of alice_a = (''ActivityPub'', ''https://inst.example/alice'')"
    by code_simp
  from add_copies_read_after_write[of alice_a alice_copy no_caches note_b plain_env "[]"] e q k
  show ?thesis by simp
qed

lemma lru_store_first: "lru_store [] k v = [(k, v)]"
  by (simp add: lru_store_def lru_maxsize_def)

lemma first_user_resolution:
  "memcache_memoize ''get_original_user_key'' (get_original_user_key_wrapped plain_env [alice_a])
     (uri alice_copy) no_caches
   = (Inr None, no_caches\<lparr>queries := 6,
        memcache := [((''get_original_user_key'', ''did:plc:alice''), None)]\<rparr>)"
  by code_simp

lemma first_object_resolution:
  "memcache_memoize ''get_original_object_key'' (get_original_object_key_wrapped [alice_note])
     (uri note_copy) no_caches
   = (Inr None, no_caches\<lparr>queries := 1,
        memcache := [((''get_original_object_key'',
                       ''at://did:plc:alice/app.bsky.feed.post/1''), None)]\<rparr>)"
  by code_simp

lemma after_user_miss_value:
  "get_original_user_key plain_env [alice_a] (uri alice_copy) no_caches
   = (Inr None, no_caches\<lparr>queries := 6,
        memcache := [((''get_original_user_key'', ''did:plc:alice''), None)],
        lru_user := [(uri alice_copy, None)]\<rparr>)"
  unfolding get_original_user_key_def first_user_resolution
  by (simp add: no_caches_def lru_store_first)

lemma after_object_miss_value:
  "get_original_object_key [alice_note] (uri note_copy) no_caches
   = (Inr None, no_caches\<lparr>queries := 1,
        memcache := [((''get_original_object_key'',
                       ''at://did:plc:alice/app.bsky.feed.post/1''), None)],
        lru_object := [(uri note_copy, None)]\<rparr>)"
  unfolding get_original_object_key_def first_object_resolution
  by (simp add: no_caches_def lru_store_first)

text \<open>Counterexample to the claim as stated.  A process resolves a URI that is no copy
  yet: the result is \<open>None\<close>.  Then a user gains a copy with that URI (and is written to the
  datastore), and so does an object.  The same process resolves the URI again, and the
  result is still \<open>None\<close>: \<open>lru_cache\<close> answers, and \<open>add\<close> did not touch it.\<close>

theorem add_copies_stale_counterexample:
  "fst (get_original_user_key plain_env [alice_a] (uri alice_copy) no_caches) = Inr None
   \<and> alice_copy \<in> set (copies (fst (user_add alice_a (UserCopies alice_copy) after_user_miss)))
   \<and> fst (get_original_user_key plain_env
            [fst (user_add alice_a (UserCopies alice_copy) after_user_miss)] (uri alice_copy)
            (snd (user_add alice_a (UserCopies alice_copy) after_user_miss))) = Inr None
   \<and> fst (get_original_object_key [alice_note] (uri note_copy) no_caches) = Inr None
   \<and> note_copy \<in> set (object_copies
                         (fst (object_add alice_note (ObjectCopies note_copy) after_object_miss)))
   \<and> fst (get_original_object_key
            [fst (object_add alice_note (ObjectCopies note_copy) after_object_miss)]
            (uri note_copy)
            (snd (object_add alice_note (ObjectCopies note_copy) after_object_miss))) = Inr None"
proof -
  have u: "map_of (lru_user (snd (user_add alice_a (UserCopies alice_copy) after_user_miss)))
      (uri alice_copy) = Some None"
    by (simp add: user_add_copies_state after_user_miss_def after_user_miss_value)
  have ob: "map_of (lru_object
      (snd (object_add alice_note (ObjectCopies note_copy) after_object_miss)))
      (uri note_copy) = Some None"
    by (simp add: object_add_copies_state after_object_miss_def after_object_miss_value)
  have cu: "alice_copy \<in> set (copies (fst (user_add alice_a (UserCopies alice_copy)
      after_user_miss)))"
    by (simp add: user_add_def util_add_def)
  have co: "note_copy \<in> set (object_copies (fst (object_add alice_note
      (ObjectCopies note_copy) after_object_miss)))"
    by (simp add: object_add_def util_add_def)
  show ?thesis
    by (simp add: after_user_miss_value after_object_miss_value cu co
        get_original_user_key_lru_hit[OF u] get_original_object_key_lru_hit[OF ob])
qed

section \<open>Resolving ids\<close>

lemma and_then_Inr: "and_then (Inr x) f = f x"
  by (simp add: and_then_def)

lemma and_then_Inl: "and_then (Inl e) f = Inl e"
  by (simp add: and_then_def)

lemma and_then_eq_Inr:
  "and_then r f = Inr y \<longleftrightarrow> (\<exists>x. r = Inr x \<and> f x = Inr y)"
  by (cases r) (simp_all add: and_then_def)







lemma replace_found:
  assumes "replace fn ref = Inr (v, same, True)"
  shows "\<exists>k. fn (ref_id ref) = Inr (Some k)"
proof -
  from assms have t: "truthy (ref_id ref)" by (auto simp: replace_def split: if_splits)
  with assms obtain orig where o: "fn (ref_id ref) = Inr orig"
    by (auto simp: replace_def and_then_eq_Inr)
  with assms t show ?thesis
    by (cases orig) (auto simp: replace_def and_then_Inr)
qed

lemma replace_val_found:
  assumes "replace_val fn ref = Inr (v, True)"
  shows "\<exists>k. fn (ref_id ref) = Inr (Some k)"
proof -
  from assms obtain same where "replace fn ref = Inr (v, same, True)"
    by (auto simp: replace_val_def and_then_eq_Inr)
  then show ?thesis by (rule replace_found)
qed





lemma replace_all_found:
  assumes "replace_all f xs = Inr (vs, True)"
  shows "\<exists>x \<in> set xs. \<exists>v. f x = Inr (v, True)"
  using assms
proof (induction xs arbitrary: vs)
  case Nil
  then show ?case by simp
next
  case (Cons x xs)
  from Cons.prems obtain v r1 vs1 r2
    where fx: "f x = Inr (v, r1)" and rest: "replace_all f xs = Inr (vs1, r2)"
      and r: "r1 \<or> r2"
    by (auto simp: and_then_eq_Inr)
  show ?case
  proof (cases r1)
    case True
    with fx show ?thesis by auto
  next
    case False
    with r rest have "replace_all f xs = Inr (vs1, True)" by simp
    from Cons.IH[OF this] show ?thesis by auto
  qed
qed



text \<open>One field of an object.\<close>

lemma resolve_field_result:
  assumes "resolve_field fn field d = Inr (d', r)"
  obtains vs where "replace_all (replace_val fn) (get_list d field) = Inr (vs, r)"
    and "d' = dict_set d field (collapse vs)"
  using assms by (auto simp: resolve_field_def and_then_eq_Inr)



lemma resolve_field_found:
  assumes "resolve_field fn field d = Inr (d', True)"
  shows "\<exists>j k. fn j = Inr (Some k)"
proof -
  from assms obtain vs
    where all: "replace_all (replace_val fn) (get_list d field) = Inr (vs, True)"
    by (rule resolve_field_result)
  from replace_all_found[OF all] replace_val_found[of fn] show ?thesis by blast
qed




lemma replace_tag_found:
  assumes "replace_tag fn tag = Inr (v, True)"
  shows "\<exists>j k. fn j = Inr (Some k)"
proof (cases tag)
  case (JDict t)
  with assms obtain w where "replace_val fn (dict_get t ''url'') = Inr (w, True)"
    by (auto simp: replace_tag_def and_then_eq_Inr split: if_splits)
  from replace_val_found[OF this] show ?thesis by blast
qed (use assms in \<open>auto simp: replace_tag_def\<close>)



lemma resolve_tags_result:
  assumes "resolve_tags fn d = Inr (d', r)"
  obtains ts where "replace_all (replace_tag fn) (get_list d ''tags'') = Inr (ts, r)"
    and "d' = (case (dict_get d ''tags'', ts) of
                 (JList old, _) \<Rightarrow> dict_set d ''tags'' (JList ts)
               | (_, [t]) \<Rightarrow> dict_set d ''tags'' t
               | _ \<Rightarrow> d)"
  using assms by (auto simp: resolve_tags_def and_then_eq_Inr)




lemma resolve_tags_found:
  assumes "resolve_tags fn d = Inr (d', True)"
  shows "\<exists>j k. fn j = Inr (Some k)"
proof -
  from assms obtain ts
    where all: "replace_all (replace_tag fn) (get_list d ''tags'') = Inr (ts, True)"
    by (rule resolve_tags_result)
  from replace_all_found[OF all] replace_tag_found[of fn] show ?thesis by blast
qed



text \<open>The four fields of one object.\<close>

lemma resolve_fields_steps:
  assumes "resolve_fields oo ou (JDict d) = Inr (res, r)"
  shows "\<exists>d1 r1 d2 r2 d3 r3 d4 r4.
      resolve_tags ou d = Inr (d1, r1)
    \<and> resolve_field ou ''actor'' d1 = Inr (d2, r2)
    \<and> resolve_field ou ''author'' d2 = Inr (d3, r3)
    \<and> resolve_field oo ''inReplyTo'' d3 = Inr (d4, r4)
    \<and> res = JDict d4 \<and> r = (r1 \<or> r2 \<or> r3 \<or> r4)"
  using assms by (clarsimp simp: resolve_fields_def and_then_eq_Inr)

lemma resolve_fields_result:
  assumes "resolve_fields oo ou (JDict d) = Inr (res, r)"
  obtains d1 r1 d2 r2 d3 r3 d4 r4
  where "resolve_tags ou d = Inr (d1, r1)"
    and "resolve_field ou ''actor'' d1 = Inr (d2, r2)"
    and "resolve_field ou ''author'' d2 = Inr (d3, r3)"
    and "resolve_field oo ''inReplyTo'' d3 = Inr (d4, r4)"
    and "res = JDict d4" and "r = (r1 \<or> r2 \<or> r3 \<or> r4)"
  using resolve_fields_steps[OF assms] by blast

lemma resolve_fields_dict:
  assumes "resolve_fields oo ou obj = Inr (res, r)"
  shows "\<exists>d d'. obj = JDict d \<and> res = JDict d'"
proof (cases obj)
  case (JDict d)
  with assms show ?thesis by (auto elim!: resolve_fields_result)
qed (use assms in \<open>simp_all add: resolve_fields_def\<close>)



lemma resolve_fields_found:
  assumes "resolve_fields oo ou obj = Inr (res, True)"
  shows "\<exists>j k. oo j = Inr (Some k) \<or> ou j = Inr (Some k)"
proof -
  from resolve_fields_dict[OF assms] obtain d where obj: "obj = JDict d" by blast
  from assms[unfolded obj] obtain d1 r1 d2 r2 d3 r3 d4 r4
    where t: "resolve_tags ou d = Inr (d1, r1)"
      and a: "resolve_field ou ''actor'' d1 = Inr (d2, r2)"
      and b: "resolve_field ou ''author'' d2 = Inr (d3, r3)"
      and c: "resolve_field oo ''inReplyTo'' d3 = Inr (d4, r4)"
      and r: "True = (r1 \<or> r2 \<or> r3 \<or> r4)"
    by (rule resolve_fields_result)
  from r consider r1 | r2 | r3 | r4 by blast
  then show ?thesis
  proof cases
    case 1
    with resolve_tags_found[of ou d d1] t show ?thesis by auto
  next
    case 2
    with resolve_field_found[of ou "''actor''" d1 d2] a show ?thesis by auto
  next
    case 3
    with resolve_field_found[of ou "''author''" d2 d3] b show ?thesis by auto
  next
    case 4
    with resolve_field_found[of oo "''inReplyTo''" d3 d4] c show ?thesis by auto
  qed
qed



text \<open>The primary object.\<close>

lemma resolve_object_first_index:
  "resolve_object oo ou inner = replace (first_index oo ou) inner"
proof (cases "truthy (ref_id inner)")
  case False
  then show ?thesis by (simp add: resolve_object_def replace_def and_then_Inr)
next
  case True
  show ?thesis
  proof (cases "oo (ref_id inner)")
    case (Inl e)
    with True show ?thesis
      by (simp add: resolve_object_def replace_def first_index_def and_then_Inl)
  next
    case (Inr orig)
    with True show ?thesis
      by (cases orig; cases inner)
        (simp_all add: resolve_object_def replace_def first_index_def and_then_Inr)
  qed
qed

lemma first_index_found:
  "first_index oo ou j = Inr (Some k) \<Longrightarrow> oo j = Inr (Some k) \<or> ou j = Inr (Some k)"
  by (auto simp: first_index_def split: sum.splits option.splits)



lemma get_object_str:
  "dict_get outer field = JStr s \<Longrightarrow> s \<noteq> [] \<Longrightarrow>
     get_object outer field = JDict [(''id'', JStr s)]"
  by (simp add: get_object_def get_first_def)

lemma get_object_dict:
  "dict_get outer field = JDict d \<Longrightarrow> d \<noteq> [] \<Longrightarrow> get_object outer field = JDict d"
  by (simp add: get_object_def get_first_def)

text \<open>The whole pass over \<open>outer_obj\<close>.\<close>

lemma resolve_outer_steps:
  assumes "resolve_outer oo ou (JDict outer) = Inr (res, r)"
  shows "\<exists>v same r0 d1 r1 inner1 r2.
      replace (first_index oo ou) (get_object outer ''object'') = Inr (v, same, r0)
    \<and> resolve_fields oo ou (JDict (dict_set outer ''object'' v)) = Inr (JDict d1, r1)
    \<and> resolve_fields oo ou (if same then v else get_object outer ''object'')
        = Inr (inner1, r2)
    \<and> res = JDict (if same then dict_set d1 ''object'' inner1 else d1)
    \<and> r = (r0 \<or> r1 \<or> r2)"
proof -
  let ?inner = "get_object outer ''object''"
  from assms obtain v same r0 where
    o: "resolve_object oo ou ?inner = Inr (v, same, r0)"
    by (auto simp: resolve_outer_def Let_def and_then_eq_Inr)
  with assms obtain outer1 r1 where
    f: "resolve_fields oo ou (JDict (dict_set outer ''object'' v)) = Inr (outer1, r1)"
    by (auto simp: resolve_outer_def Let_def and_then_eq_Inr)
  from resolve_fields_dict[OF f] obtain d1 where d1: "outer1 = JDict d1" by blast
  from assms o f obtain inner1 r2 where
    i: "resolve_fields oo ou (if same then v else ?inner) = Inr (inner1, r2)"
    by (auto simp: resolve_outer_def Let_def and_then_eq_Inr)
  from assms o f i d1
  have "res = JDict (if same then dict_set d1 ''object'' inner1 else d1)"
    and "r = (r0 \<or> r1 \<or> r2)"
    by (auto simp: resolve_outer_def Let_def and_then_Inr split: if_splits)
  with o f i d1 show ?thesis
    unfolding resolve_object_first_index by blast
qed


lemma resolve_outer_found:
  assumes "resolve_outer oo ou (JDict outer) = Inr (res, True)"
  shows "\<exists>j k. oo j = Inr (Some k) \<or> ou j = Inr (Some k)"
proof -
  from resolve_outer_steps[OF assms] obtain v same r0 d1 r1 inner1 r2
    where o: "replace (first_index oo ou) (get_object outer ''object'') = Inr (v, same, r0)"
      and f: "resolve_fields oo ou (JDict (dict_set outer ''object'' v)) = Inr (JDict d1, r1)"
      and i: "resolve_fields oo ou (if same then v else get_object outer ''object'')
                = Inr (inner1, r2)"
      and r: "True = (r0 \<or> r1 \<or> r2)"
    by blast
  from r consider r0 | r1 | r2 by blast
  then show ?thesis
  proof cases
    case 1
    with o replace_found[of "first_index oo ou" "get_object outer ''object''" v same]
    obtain k where "first_index oo ou (ref_id (get_object outer ''object'')) = Inr (Some k)"
      by auto
    from first_index_found[OF this] show ?thesis by blast
  next
    case 2
    with f resolve_fields_found[of oo ou "JDict (dict_set outer ''object'' v)" "JDict d1"]
    show ?thesis by auto
  next
    case 3
    with i resolve_fields_found[of oo ou
        "if same then v else get_object outer ''object''" inner1]
    show ?thesis by auto
  qed
qed





























end
